theory Spec2Isabelle
  imports Main "HOL-Library.Word"
begin

unbundle bit_operations_syntax

section \<open>Whisper envelopes and messages (libwhisper, Message.cpp)\<close>

text \<open>
  A shallow embedding of \<^verbatim>\<open>Message::Message\<close>, \<^verbatim>\<open>Message::populate\<close>,
  \<^verbatim>\<open>Message::seal\<close>, \<^verbatim>\<open>Envelope::open\<close>, \<^verbatim>\<open>Envelope::workProved\<close> and
  \<^verbatim>\<open>Envelope::proveWork\<close>.

  Fixed-size hashes are words of their width: \<^verbatim>\<open>h256\<close>, \<^verbatim>\<open>Secret\<close> and \<^verbatim>\<open>u256\<close> are
  256-bit, \<^verbatim>\<open>Public\<close> is 512-bit, \<^verbatim>\<open>Signature\<close> is 520-bit (65 bytes), a topic tag is
  32-bit. The boolean reading of a hash (\<^verbatim>\<open>if (_s)\<close>, \<^verbatim>\<open>if (m_to)\<close>, \<^verbatim>\<open>!m_from\<close>) is
  "some byte is nonzero", that is, the word differs from 0.
\<close>

subsection \<open>Bytes and fixed-size hashes\<close>

type_synonym byte = "8 word"
type_synonym bytes = "byte list"
type_synonym h256 = "256 word"
type_synonym u256 = "256 word"
type_synonym Secret = "256 word"
type_synonym Public = "512 word"
type_synonym Signature = "520 word"
type_synonym AbridgedTopic = "32 word"

text \<open>The bytes of a hash in memory, most significant byte first, and the value they hold.\<close>

fun be_bytes :: "nat \<Rightarrow> nat \<Rightarrow> bytes" where
  "be_bytes 0 v = []"
| "be_bytes (Suc k) v = be_bytes k (v div 256) @ [of_nat (v mod 256)]"

definition be_value :: "bytes \<Rightarrow> nat" where
  "be_value bs = foldl (\<lambda>a b. a * 256 + unat b) 0 bs"

definition h256_bytes :: "h256 \<Rightarrow> bytes" where
  "h256_bytes h = be_bytes 32 (unat h)"

definition Signature_bytes :: "Signature \<Rightarrow> bytes" where
  "Signature_bytes s = be_bytes 65 (unat s)"

definition Signature_at :: "bytes \<Rightarrow> nat \<Rightarrow> Signature" where
  \<comment> \<open>\<^verbatim>\<open>*(Signature const*)&(_data[off])\<close>: the 65 bytes from \<open>off\<close> on.\<close>
  "Signature_at bs off = of_nat (be_value (take 65 (drop off bs)))"

definition sizeof_Signature :: nat where
  "sizeof_Signature = 65"

text \<open>
  Modelled from the spec: \<^verbatim>\<open>bytesConstRef::cropped\<close> is declared in a header that is not
  among the sources. The spec reads \<^verbatim>\<open>cropped(b, n)\<close> as the slice
  \<^verbatim>\<open>data[b .. b+n]\<close> and \<^verbatim>\<open>cropped(b)\<close> as \<^verbatim>\<open>data[b ..]\<close>; a slice that does not
  fit in the buffer is empty.
\<close>

definition cropped :: "bytes \<Rightarrow> nat \<Rightarrow> nat \<Rightarrow> bytes" where
  "cropped bs b n = (if b + n \<le> length bs then take n (drop b bs) else [])"

definition cropped_from :: "bytes \<Rightarrow> nat \<Rightarrow> bytes" where
  "cropped_from bs b = drop b bs"

text \<open>
  Modelled from the spec: the constructor \<^verbatim>\<open>h256(bytesConstRef)\<close> is declared in a header
  that is not among the sources. A 32-byte slice is taken verbatim as the hash (the spec's
  "key slot"); a slice of any other length gives the zero hash.
\<close>

definition h256_of_bytes :: "bytes \<Rightarrow> h256" where
  "h256_of_bytes bs = (if length bs = 32 then of_nat (be_value bs) else 0)"

text \<open>
  Modelled from the spec: \<^verbatim>\<open>ContainsSignature\<close> is declared in Message.h, which is not
  among the sources; the spec gives bit 0 of the flags byte as "has signature".
\<close>

definition ContainsSignature :: byte where
  "ContainsSignature = 1"

text \<open>
  Modelled from the spec: \<^verbatim>\<open>FixedHash::firstBitSet\<close> is declared in a header that is not
  among the sources; the spec gives it as the count of leading zero bits of the hash.
\<close>

definition firstBitSet :: "h256 \<Rightarrow> nat" where
  "firstBitSet h = length (takeWhile (\<lambda>i. \<not> bit h i) (rev [0..<256]))"

subsection \<open>The cryptographic primitives and the host\<close>

text \<open>
  The primitives of libdevcrypto are not among the sources; they are parameters of the
  model. Each one that can throw returns \<open>Inl Thrown\<close> when it does. \<open>decrypt\<close> returns
  \<open>Inr None\<close> for the C++ result \<^verbatim>\<open>false\<close> and \<open>Inr (Some b)\<close> for \<^verbatim>\<open>true\<close> with the
  plaintext \<open>b\<close> written to the output buffer. Both calls of \<^verbatim>\<open>decrypt\<close> in the
  constructor have the argument types (Secret, bytesConstRef, bytes&), so they are one and
  the same function. \<open>KeyPair_pub s\<close> is \<^verbatim>\<open>KeyPair(s).pub()\<close>. \<open>sha3_WithoutNonce\<close> is
  \<^verbatim>\<open>sha3(WithoutNonce)\<close>, the hash of the serialised envelope without its nonce: it is given
  the four other fields.
\<close>

datatype fault = Thrown

record prims =
  sha3 :: "bytes \<Rightarrow> h256"
  encrypt :: "Public \<Rightarrow> bytes \<Rightarrow> fault + bytes"
  decrypt :: "Secret \<Rightarrow> bytes \<Rightarrow> fault + bytes option"
  sign :: "Secret \<Rightarrow> h256 \<Rightarrow> fault + Signature"
  recover :: "Signature \<Rightarrow> h256 \<Rightarrow> fault + Public"
  KeyPair_pub :: "Secret \<Rightarrow> fault + Public"
  sha3_WithoutNonce :: "32 word \<Rightarrow> 32 word \<Rightarrow> AbridgedTopic list \<Rightarrow> bytes \<Rightarrow> h256"

text \<open>
  The host: the byte order in which it stores a \<^verbatim>\<open>uint32_t\<close>, the successive readings of
  \<^verbatim>\<open>high_resolution_clock::now()\<close> in the order of the calls (in clock ticks), the number
  of ticks in a millisecond, and the value of \<^verbatim>\<open>time(0)\<close>.
\<close>

datatype endianness = LittleEndian | BigEndian

record host =
  byte_order :: endianness
  now :: "nat \<Rightarrow> nat"
  ticks_per_ms :: nat
  time0 :: int

subsection \<open>Envelope and Message\<close>

record Envelope =
  m_expiry :: "32 word"
  m_ttl :: "32 word"
  m_topic :: "AbridgedTopic list"
  m_data :: bytes
  m_nonce :: u256

record Message =
  m_payload :: bytes
  m_from :: Public
  m_to :: Public

definition Message_default :: Message where
  \<comment> \<open>the members before the constructor body runs: empty payload, zero keys\<close>
  "Message_default = \<lparr>m_payload = [], m_from = 0, m_to = 0\<rparr>"

subsection \<open>Message::populate\<close>

text \<open>
  The result is \<open>Inl Thrown\<close> when \<^verbatim>\<open>recover\<close> throws (no member has been assigned at that
  point), and otherwise the returned boolean with the message as the call leaves it.
\<close>

definition populate :: "prims \<Rightarrow> bytes \<Rightarrow> Message \<Rightarrow> fault + (bool \<times> Message)" where
  "populate P data m =
     (if length data = 0 then Inr (False, m)
      else
        let flags = data ! 0 in
        if flags AND ContainsSignature \<noteq> 0 \<and> length data \<ge> sizeof_Signature + 1 then
          let payload = cropped data 1 (length data - sizeof_Signature - 1);
              h = sha3 P payload;
              sig = Signature_at data (1 + length payload)
          in case recover P sig h of
               Inl f \<Rightarrow> Inl f
             | Inr pk \<Rightarrow>
                 if pk = 0 then Inr (False, m\<lparr>m_from := pk\<rparr>)
                 else Inr (True, m\<lparr>m_from := pk, m_payload := payload\<rparr>)
        else Inr (True, m\<lparr>m_payload := cropped_from data 1\<rparr>))"

subsection \<open>Message::Message(Envelope, Secret, topicIndex)\<close>

text \<open>
  The key of the public path: \<^verbatim>\<open>_s ^ h256(data.cropped(32 * _topicIndex, 32))\<close>, where
  \<^verbatim>\<open>32 * _topicIndex\<close> is a product of \<^verbatim>\<open>unsigned\<close>.
\<close>

definition topic_key :: "Envelope \<Rightarrow> Secret \<Rightarrow> 32 word \<Rightarrow> Secret" where
  "topic_key e s topicIndex = s XOR h256_of_bytes (cropped (m_data e) (unat (32 * topicIndex)) 32)"

text \<open>
  The first half of the constructor body: the buffer \<open>b\<close> it decrypts. \<open>Inr None\<close> is one of
  the three \<^verbatim>\<open>return\<close> statements, \<open>Inl Thrown\<close> an exception on its way to the handler.
\<close>

definition open_decrypt :: "prims \<Rightarrow> Envelope \<Rightarrow> Secret \<Rightarrow> 32 word \<Rightarrow> fault + bytes option" where
  "open_decrypt P e s topicIndex =
     (if s \<noteq> 0 then decrypt P s (m_data e)
      else if length (m_data e) < length (m_topic e) * 32 then Inr None
      else decrypt P (topic_key e s topicIndex) (cropped_from (m_data e) (32 * length (m_topic e))))"

text \<open>
  The constructor. Its handler \<^verbatim>\<open>catch (...)\<close> swallows every exception, and the message
  keeps the members assigned until then.
\<close>

definition Message_ctor :: "prims \<Rightarrow> Envelope \<Rightarrow> Secret \<Rightarrow> 32 word \<Rightarrow> Message" where
  "Message_ctor P e s topicIndex =
     (case open_decrypt P e s topicIndex of
        Inl f \<Rightarrow> Message_default
      | Inr None \<Rightarrow> Message_default
      | Inr (Some b) \<Rightarrow>
          (case populate P b Message_default of
             Inl f \<Rightarrow> Message_default
           | Inr (ok, m) \<Rightarrow>
               if ok then
                 (case KeyPair_pub P s of
                    Inl f \<Rightarrow> m
                  | Inr pk \<Rightarrow> m\<lparr>m_to := pk\<rparr>)
               else m))"

text \<open>
  \<^verbatim>\<open>Envelope::open\<close> calls the constructor without a topic index; the default argument is
  declared in Message.h, which is not among the sources, so it is a parameter here.
\<close>

definition Envelope_open :: "prims \<Rightarrow> 32 word \<Rightarrow> Envelope \<Rightarrow> Secret \<Rightarrow> Message" where
  "Envelope_open P default_topicIndex e s = Message_ctor P e s default_topicIndex"

subsection \<open>Envelope::workProved and Envelope::proveWork\<close>

definition Envelope_sha3_WithoutNonce :: "prims \<Rightarrow> Envelope \<Rightarrow> h256" where
  "Envelope_sha3_WithoutNonce P e = sha3_WithoutNonce P (m_expiry e) (m_ttl e) (m_topic e) (m_data e)"

text \<open>
  Modelled from the spec: the assignment \<^verbatim>\<open>d[1] = m_nonce\<close> in \<^verbatim>\<open>workProved\<close> converts
  the \<^verbatim>\<open>u256\<close> to an \<^verbatim>\<open>h256\<close> through a constructor declared in a header that is not
  among the sources; the spec gives the result as the 256-bit big-endian encoding of the
  nonce.
\<close>

definition workProved :: "prims \<Rightarrow> Envelope \<Rightarrow> nat" where
  "workProved P e =
     firstBitSet (sha3 P (h256_bytes (Envelope_sha3_WithoutNonce P e) @ h256_bytes (m_nonce e)))"

text \<open>
  In \<^verbatim>\<open>proveWork\<close> the counter \<^verbatim>\<open>n\<close> is a reference to a \<^verbatim>\<open>uint32_t\<close> laid over the bytes
  28..31 of \<^verbatim>\<open>d[1]\<close>, that is, the bytes 60..63 of the 64-byte array \<^verbatim>\<open>d\<close>. Reading and
  writing \<^verbatim>\<open>n\<close> goes through these four bytes in the byte order of the host.
\<close>

definition u32_bytes :: "endianness \<Rightarrow> 32 word \<Rightarrow> bytes" where
  "u32_bytes en v = (case en of BigEndian \<Rightarrow> be_bytes 4 (unat v) | LittleEndian \<Rightarrow> rev (be_bytes 4 (unat v)))"

definition u32_of_bytes :: "endianness \<Rightarrow> bytes \<Rightarrow> 32 word" where
  "u32_of_bytes en bs = (case en of BigEndian \<Rightarrow> of_nat (be_value bs) | LittleEndian \<Rightarrow> of_nat (be_value (rev bs)))"

definition get_n :: "endianness \<Rightarrow> bytes \<Rightarrow> 32 word" where
  "get_n en d = u32_of_bytes en (take 4 (drop 60 d))"

definition set_n :: "endianness \<Rightarrow> bytes \<Rightarrow> 32 word \<Rightarrow> bytes" where
  "set_n en d v = take 60 d @ u32_bytes en v @ drop 64 d"

text \<open>
  The state of the search: the array \<^verbatim>\<open>d\<close> (which holds \<^verbatim>\<open>n\<close>), \<^verbatim>\<open>bestBitSet\<close>, and the
  envelope, whose \<^verbatim>\<open>m_nonce\<close> the loop assigns. \<^verbatim>\<open>bestBitSet\<close> never exceeds 256, so it
  is a natural number.
\<close>

record pow_state =
  pw_d :: bytes
  pw_bestBitSet :: nat
  pw_this :: Envelope

text \<open>One pass through the body of the inner loop, with the \<^verbatim>\<open>++n\<close> of its header.\<close>

definition pow_body :: "prims \<Rightarrow> endianness \<Rightarrow> pow_state \<Rightarrow> pow_state" where
  "pow_body P en st =
     (let fbs = firstBitSet (sha3 P (pw_d st));
          st' = (if fbs > pw_bestBitSet st
                 then st\<lparr>pw_bestBitSet := fbs,
                         pw_this := (pw_this st)\<lparr>m_nonce := ucast (get_n en (pw_d st))\<rparr>\<rparr>
                 else st)
      in st'\<lparr>pw_d := set_n en (pw_d st') (get_n en (pw_d st') + 1)\<rparr>)"

text \<open>The inner loop, \<^verbatim>\<open>for (unsigned i = 0; i < 1024; ++i, ++n)\<close>, by the passes left.\<close>

fun pow_inner :: "prims \<Rightarrow> endianness \<Rightarrow> nat \<Rightarrow> pow_state \<Rightarrow> pow_state" where
  "pow_inner P en 0 st = st"
| "pow_inner P en (Suc i) st = pow_inner P en i (pow_body P en st)"

text \<open>
  The outer loop, \<^verbatim>\<open>for (n = 0; now() < then; )\<close>. The \<open>k\<close>-th call of \<^verbatim>\<open>now()\<close> reads
  \<open>clock k\<close>; nothing in the code bounds the number of rounds, so the loop is a partial
  function and \<open>None\<close> stands for a search that never ends.
\<close>

partial_function (option) pow_outer ::
  "prims \<Rightarrow> endianness \<Rightarrow> (nat \<Rightarrow> nat) \<Rightarrow> nat \<Rightarrow> nat \<Rightarrow> pow_state \<Rightarrow> pow_state option" where
  "pow_outer P en clock deadline k st =
     (if clock k < deadline then pow_outer P en clock deadline (Suc k) (pow_inner P en 1024 st)
      else Some st)"

definition deadline_of :: "host \<Rightarrow> 32 word \<Rightarrow> nat" where
  \<comment> \<open>\<^verbatim>\<open>then = now() + milliseconds(_ms)\<close>, the first reading of the clock\<close>
  "deadline_of H ms = now H 0 + ticks_per_ms H * unat ms"

definition pow_start :: "prims \<Rightarrow> host \<Rightarrow> Envelope \<Rightarrow> pow_state" where
  \<comment> \<open>\<^verbatim>\<open>d[0] = sha3(WithoutNonce)\<close>, \<^verbatim>\<open>d[1]\<close> zero, \<^verbatim>\<open>bestBitSet = 0\<close>, \<^verbatim>\<open>n = 0\<close>\<close>
  "pow_start P H e =
     \<lparr>pw_d = set_n (byte_order H) (h256_bytes (Envelope_sha3_WithoutNonce P e) @ replicate 32 0) 0,
      pw_bestBitSet = 0,
      pw_this = e\<rparr>"

definition proveWork :: "prims \<Rightarrow> host \<Rightarrow> 32 word \<Rightarrow> Envelope \<Rightarrow> Envelope option" where
  "proveWork P H ms e =
     map_option pw_this
       (pow_outer P (byte_order H) (now H) (deadline_of H ms) 1 (pow_start P H e))"

text \<open>
  The 64 bytes of \<^verbatim>\<open>d\<close> when the counter holds \<open>c\<close>: \<^verbatim>\<open>d[0]\<close>, the 28 bytes of
  \<^verbatim>\<open>d[1]\<close> that no statement writes, and the four bytes of the counter.
\<close>

definition candidate_block :: "prims \<Rightarrow> endianness \<Rightarrow> Envelope \<Rightarrow> 32 word \<Rightarrow> bytes" where
  "candidate_block P en e c =
     h256_bytes (Envelope_sha3_WithoutNonce P e) @ replicate 28 0 @ u32_bytes en c"

text \<open>The score \<^verbatim>\<open>fbs\<close> of the \<open>k\<close>-th block the search hashes.\<close>

definition candidate_score :: "prims \<Rightarrow> endianness \<Rightarrow> Envelope \<Rightarrow> nat \<Rightarrow> nat" where
  "candidate_score P en e k = firstBitSet (sha3 P (candidate_block P en e (of_nat k)))"

text \<open>
  What every state of the search satisfies: the array holds the block of some counter, the
  envelope differs from the one \<^verbatim>\<open>proveWork\<close> was called on in its nonce at most, and
  either nothing has been stored yet, or the nonce is a counter value whose block scored
  \<^verbatim>\<open>bestBitSet\<close>, above zero.
\<close>

definition pow_inv :: "prims \<Rightarrow> endianness \<Rightarrow> Envelope \<Rightarrow> pow_state \<Rightarrow> bool" where
  "pow_inv P en e st \<longleftrightarrow>
     (\<exists>n. pw_d st = candidate_block P en e n)
     \<and> pw_this st = e\<lparr>m_nonce := m_nonce (pw_this st)\<rparr>
     \<and> ((pw_bestBitSet st = 0 \<and> m_nonce (pw_this st) = m_nonce e)
        \<or> (\<exists>c. m_nonce (pw_this st) = ucast c
              \<and> pw_bestBitSet st = firstBitSet (sha3 P (candidate_block P en e c))
              \<and> 0 < pw_bestBitSet st))"

subsection \<open>Message::seal\<close>

text \<open>
  \<^verbatim>\<open>seal\<close> has no handler: an exception of a primitive leaves it (\<open>Thrown_in_seal\<close>), and the
  assertion on the sign-recover round trip aborts (\<open>AssertionFailed\<close>). The outer \<open>option\<close>
  is \<open>None\<close> when \<^verbatim>\<open>proveWork\<close> never returns.
\<close>

datatype seal_error = Thrown_in_seal | AssertionFailed

definition seal_input :: "prims \<Rightarrow> Message \<Rightarrow> Secret \<Rightarrow> seal_error + bytes" where
  "seal_input P msg from =
     (let input = 0 # m_payload msg in
      if from \<noteq> 0 then
        (case sign P from (sha3 P (m_payload msg)) of
           Inl f \<Rightarrow> Inl Thrown_in_seal
         | Inr sig \<Rightarrow>
             let input' = (input ! 0 OR ContainsSignature) # m_payload msg @ Signature_bytes sig in
             (case recover P (Signature_at input' (1 + length (m_payload msg))) (sha3 P (m_payload msg)) of
                Inl f \<Rightarrow> Inl Thrown_in_seal
              | Inr r \<Rightarrow>
                  (case KeyPair_pub P from of
                     Inl f \<Rightarrow> Inl Thrown_in_seal
                   | Inr pk \<Rightarrow> if r = pk then Inr input' else Inl AssertionFailed)))
      else Inr input)"

definition seal ::
  "prims \<Rightarrow> host \<Rightarrow> Message \<Rightarrow> Secret \<Rightarrow> AbridgedTopic list \<Rightarrow> 32 word \<Rightarrow> 32 word
    \<Rightarrow> (seal_error + Envelope) option" where
  "seal P H msg from topic ttl workToProve =
     (let ret = \<lparr>m_expiry = word_of_int (time0 H + uint ttl), m_ttl = ttl, m_topic = topic,
                 m_data = [], m_nonce = 0\<rparr>
      in case seal_input P msg from of
           Inl err \<Rightarrow> Some (Inl err)
         | Inr input \<Rightarrow>
             (case (if m_to msg \<noteq> 0 then encrypt P (m_to msg) input else Inr input) of
                Inl f \<Rightarrow> Some (Inl Thrown_in_seal)
              | Inr data \<Rightarrow> map_option Inr (proveWork P H workToProve (ret\<lparr>m_data := data\<rparr>))))"

subsection \<open>Test doubles\<close>

text \<open>
  A stand-in for the primitives, used to show that the hypotheses of the theorems below
  can be met: a cipher that tags the plaintext with the low byte of the key, a signature
  that carries its signer, and hashes that count bytes.
\<close>

definition test_prims :: prims where
  "test_prims =
     \<lparr>sha3 = (\<lambda>bs. of_nat (length bs)),
      encrypt = (\<lambda>k x. Inr (ucast k # x)),
      decrypt = (\<lambda>s c. case c of [] \<Rightarrow> Inr None
                         | t # r \<Rightarrow> if t = ucast s then Inr (Some r) else Inr None),
      sign = (\<lambda>f h. Inr (ucast f)),
      recover = (\<lambda>sig h. Inr (ucast sig)),
      KeyPair_pub = (\<lambda>s. Inr (ucast s)),
      sha3_WithoutNonce = (\<lambda>ex tl tp dat. of_nat (length dat))\<rparr>"

text \<open>
  Four envelopes for the test cipher: one whose data decrypts with the secret 5 to an
  unsigned frame with payload "hi", one whose data decrypts with 5 to the single flags
  byte, one whose data decrypts with 5 to the empty frame, and one for the public path,
  with a 32-byte key slot for its one topic followed by the first frame encrypted under
  the key in the slot.
\<close>

definition direct_envelope :: Envelope where
  "direct_envelope = \<lparr>m_expiry = 1060, m_ttl = 60, m_topic = [7], m_data = [5, 0, 104, 105], m_nonce = 0\<rparr>"

definition bare_envelope :: Envelope where
  "bare_envelope = \<lparr>m_expiry = 1060, m_ttl = 60, m_topic = [7], m_data = [5, 0], m_nonce = 0\<rparr>"

definition empty_frame_envelope :: Envelope where
  "empty_frame_envelope = \<lparr>m_expiry = 1060, m_ttl = 60, m_topic = [7], m_data = [5], m_nonce = 0\<rparr>"

definition broadcast_envelope :: Envelope where
  "broadcast_envelope =
     \<lparr>m_expiry = 1060, m_ttl = 60, m_topic = [7],
      m_data = [0, 0, 0, 0, 0, 0, 0, 0, 0, 0, 0, 0, 0, 0, 0, 0,
                0, 0, 0, 0, 0, 0, 0, 0, 0, 0, 0, 0, 0, 0, 0, 9,
                9, 0, 104, 105], m_nonce = 0\<rparr>"

text \<open>
  A little-endian host whose clock advances 50 ticks from one reading to the next, at 100
  ticks per millisecond: a budget of 0 ms lets no round run, a budget of 1 ms exactly one.
\<close>

definition ticking_host :: host where
  "ticking_host = \<lparr>byte_order = LittleEndian, now = (\<lambda>k. 1000 + 50 * k), ticks_per_ms = 100, time0 = 1000\<rparr>"

text \<open>
  Two variants of the stand-in with other hashes: one whose hash has 256 leading zero bits
  exactly on blocks that end in the bytes 1, 0, 0, 0 and none elsewhere, and one whose hash
  never has a leading zero bit.
\<close>

definition marker_prims :: prims where
  "marker_prims = test_prims\<lparr>sha3 := (\<lambda>bs. if drop 60 bs = [1, 0, 0, 0] then 0 else - 1)\<rparr>"

definition flat_prims :: prims where
  "flat_prims = test_prims\<lparr>sha3 := (\<lambda>bs. - 1)\<rparr>"

text \<open>
  An envelope that already carries a nonce, one that is not a 32-bit value; a message
  "hello" without recipient and the envelope \<^verbatim>\<open>seal\<close> makes of it unsigned; a message "hi"
  for the recipient key 5 and the envelope \<^verbatim>\<open>seal\<close> makes of it with the sender secret 7.
\<close>

definition stale_envelope :: Envelope where
  "stale_envelope = \<lparr>m_expiry = 1060, m_ttl = 60, m_topic = [7], m_data = [5, 0], m_nonce = 2 ^ 40\<rparr>"

definition hello_message :: Message where
  "hello_message = \<lparr>m_payload = [104, 101, 108, 108, 111], m_from = 0, m_to = 0\<rparr>"

definition hello_envelope :: Envelope where
  "hello_envelope = \<lparr>m_expiry = 1060, m_ttl = 60, m_topic = [7],
                      m_data = [0, 104, 101, 108, 108, 111], m_nonce = 0\<rparr>"

definition signed_message :: Message where
  "signed_message = \<lparr>m_payload = [104, 105], m_from = 0, m_to = 5\<rparr>"

definition signed_envelope :: Envelope where
  "signed_envelope = \<lparr>m_expiry = 1060, m_ttl = 60, m_topic = [7],
                       m_data = 5 # 1 # [104, 105] @ Signature_bytes 7, m_nonce = 0\<rparr>"

section \<open>Properties\<close>

subsection \<open>Bytes of hashes\<close>

lemma length_be_bytes: "length (be_bytes k v) = k"
  by (induction k arbitrary: v) simp_all

lemma be_value_snoc: "be_value (bs @ [b]) = be_value bs * 256 + unat b"
  by (simp add: be_value_def)

lemma be_value_be_bytes: "be_value (be_bytes k v) = v mod 256 ^ k"
proof (induction k arbitrary: v)
  case 0
  show ?case by (simp add: be_value_def)
next
  case (Suc k)
  have b: "unat (of_nat (v mod 256) :: byte) = v mod 256"
    by (simp add: unat_of_nat)
  have "be_value (be_bytes (Suc k) v) = (v div 256) mod 256 ^ k * 256 + v mod 256"
    by (simp add: be_value_snoc Suc.IH b)
  also have "\<dots> = v mod 256 ^ Suc k"
    by (simp add: mod_mult2_eq)
  finally show ?case .
qed

lemma Signature_at_bytes:
  "Signature_at (pre @ Signature_bytes sig) (length pre) = sig"
proof -
  have "unat sig < 2 ^ 520"
    using unsigned_less [of sig] by simp
  then have "unat sig mod 256 ^ 65 = unat sig"
    by simp
  then show ?thesis
    by (simp add: Signature_at_def Signature_bytes_def length_be_bytes be_value_be_bytes)
qed

lemma length_Signature_bytes: "length (Signature_bytes sig) = 65"
  by (simp add: Signature_bytes_def length_be_bytes)

lemma Signature_at_frame: "Signature_at (f # p @ Signature_bytes sig) (Suc (length p)) = sig"
  using Signature_at_bytes [of "f # p" sig] by simp

lemma cropped_frame: "cropped (f # p @ Signature_bytes sig) (Suc 0) (length p) = p"
  by (simp add: cropped_def)

lemma h256_of_bytes_h256_bytes: "h256_of_bytes (h256_bytes h) = h"
proof -
  have "unat h < 2 ^ 256"
    using unsigned_less [of h] by simp
  then have "unat h mod 256 ^ 32 = unat h"
    by simp
  then show ?thesis
    by (simp add: h256_of_bytes_def h256_bytes_def length_be_bytes be_value_be_bytes)
qed

lemma u32_of_bytes_u32_bytes: "u32_of_bytes en (u32_bytes en v) = v"
proof -
  have "unat v < 2 ^ 32"
    using unsigned_less [of v] by simp
  then have "unat v mod 256 ^ 4 = unat v"
    by simp
  then show ?thesis
    by (cases en) (simp_all add: u32_of_bytes_def u32_bytes_def be_value_be_bytes)
qed

lemma length_u32_bytes: "length (u32_bytes en v) = 4"
  by (cases en) (simp_all add: u32_bytes_def length_be_bytes)

lemma get_n_set_n: "60 \<le> length d \<Longrightarrow> get_n en (set_n en d v) = v"
  by (simp add: get_n_def set_n_def length_u32_bytes u32_of_bytes_u32_bytes)

subsection \<open>Frame parsing\<close>

lemma populate_empty: "populate P [] m = Inr (False, m)"
  by (simp add: populate_def)

lemma populate_unsigned:
  assumes "data \<noteq> []"
    and "hd data AND ContainsSignature = 0 \<or> length data < sizeof_Signature + 1"
  shows "populate P data m = Inr (True, m\<lparr>m_payload := tl data\<rparr>)"
proof -
  from assms(1) obtain f r where d: "data = f # r"
    by (cases data) auto
  with assms(2) show ?thesis
    by (auto simp add: populate_def cropped_from_def Let_def)
qed

lemma populate_fail_default:
  "populate P b Message_default = Inr (False, m) \<Longrightarrow> m = Message_default"
  by (auto simp add: populate_def Message_default_def Let_def split: if_splits sum.splits)

lemma populate_signed:
  assumes "recover P sig (sha3 P p) = Inr pk"
  shows "populate P ((f OR ContainsSignature) # p @ Signature_bytes sig) m
         = (if pk = 0 then Inr (False, m\<lparr>m_from := pk\<rparr>)
            else Inr (True, m\<lparr>m_from := pk, m_payload := p\<rparr>))"
proof -
  have flag: "(f OR ContainsSignature) AND ContainsSignature \<noteq> 0"
    by (simp add: ContainsSignature_def)
  show ?thesis
    using flag assms
    by (simp add: populate_def sizeof_Signature_def length_Signature_bytes
        cropped_frame Signature_at_frame)
qed

text \<open>
  C7. A non-empty frame whose flags byte has the signature bit set, but which is shorter
  than one byte plus a signature, is not rejected: \<^verbatim>\<open>populate\<close> returns true, the payload
  is everything after the flags byte, and the sender stays absent.
\<close>

theorem populate_short_signature_frame:
  assumes "data \<noteq> []"
    and "hd data AND ContainsSignature \<noteq> 0"
    and "length data < 1 + sizeof_Signature"
  shows "populate P data Message_default
         = Inr (True, \<lparr>m_payload = tl data, m_from = 0, m_to = 0\<rparr>)"
  using populate_unsigned [of data P Message_default] assms
  by (simp add: Message_default_def)

theorem populate_short_signature_frame_witness:
  "[1, 104, 105] \<noteq> ([] :: bytes) \<and> hd [1, 104, 105] AND ContainsSignature \<noteq> 0
   \<and> length [1 :: byte, 104, 105] < 1 + sizeof_Signature
   \<and> populate test_prims [1, 104, 105] Message_default
       = Inr (True, \<lparr>m_payload = [104, 105], m_from = 0, m_to = 0\<rparr>)"
  using populate_short_signature_frame [of "[1, 104, 105]" test_prims]
  by (simp add: ContainsSignature_def sizeof_Signature_def)

lemma be_value_bound: "be_value bs < 256 ^ length bs"
proof (induction bs rule: rev_induct)
  case Nil
  show ?case by (simp add: be_value_def)
next
  case (snoc b bs)
  have "unat b < 256"
    using unsigned_less [of b] by simp
  with snoc show ?case
    by (simp add: be_value_snoc)
qed

lemma be_bytes_be_value: "be_bytes (length bs) (be_value bs) = bs"
proof (induction bs rule: rev_induct)
  case Nil
  show ?case by simp
next
  case (snoc b bs)
  have b: "unat b < 256"
    using unsigned_less [of b] by simp
  then have "(be_value bs * 256 + unat b) div 256 = be_value bs"
    and "(be_value bs * 256 + unat b) mod 256 = unat b"
    by simp_all
  with snoc show ?case
    by (simp add: be_value_snoc)
qed

lemma h256_bytes_h256_of_bytes:
  assumes "length bs = 32"
  shows "h256_bytes (h256_of_bytes bs) = bs"
proof -
  have "be_value bs < 2 ^ 256"
    using be_value_bound [of bs] assms by simp
  then have "unat (of_nat (be_value bs) :: h256) = be_value bs"
    by (simp add: unat_of_nat)
  then show ?thesis
    using be_bytes_be_value [of bs] assms
    by (simp add: h256_bytes_def h256_of_bytes_def)
qed

subsection \<open>Opening an envelope\<close>

text \<open>
  C8. The constructor chooses its path by the test \<^verbatim>\<open>if (_s)\<close> alone. A nonzero secret
  goes to \<^verbatim>\<open>decrypt\<close> with the whole data, and when that returns false the message
  stays empty: the public path is not tried. The zero secret goes to the public path: the
  size check, then \<^verbatim>\<open>decrypt\<close> under the key \<^verbatim>\<open>_s ^ h256(slot)\<close>, which for the zero
  secret is the slot itself, so that the bytes of the key are the 32 bytes of the slot.
\<close>

theorem open_dispatch_on_secret:
  "(s \<noteq> 0 \<longrightarrow>
      open_decrypt P e s ti = decrypt P s (m_data e)
      \<and> (decrypt P s (m_data e) = Inr None \<longrightarrow> Message_ctor P e s ti = Message_default))
   \<and> (s = 0 \<longrightarrow>
      open_decrypt P e s ti =
        (if length (m_data e) < length (m_topic e) * 32 then Inr None
         else decrypt P (h256_of_bytes (cropped (m_data e) (unat (32 * ti)) 32))
                (cropped_from (m_data e) (32 * length (m_topic e))))
      \<and> (unat (32 * ti) + 32 \<le> length (m_data e) \<longrightarrow>
           h256_bytes (topic_key e s ti) = take 32 (drop (unat (32 * ti)) (m_data e))))"
proof (cases "s = 0")
  case True
  have "h256_bytes (topic_key e 0 ti) = take 32 (drop (unat (32 * ti)) (m_data e))"
    if "unat (32 * ti) + 32 \<le> length (m_data e)"
    using that h256_bytes_h256_of_bytes [of "take 32 (drop (unat (32 * ti)) (m_data e))"]
    by (simp add: topic_key_def cropped_def)
  with True show ?thesis
    by (simp add: open_decrypt_def topic_key_def)
next
  case False
  then show ?thesis
    by (simp add: open_decrypt_def Message_ctor_def)
qed

theorem open_dispatch_on_secret_witness:
  "(5 :: Secret) \<noteq> 0 \<and> decrypt test_prims 5 (m_data bare_envelope) \<noteq> Inr None
   \<and> decrypt test_prims 6 (m_data bare_envelope) = Inr None
   \<and> Message_ctor test_prims bare_envelope 6 0 = Message_default
   \<and> unat (32 * 0 :: 32 word) + 32 \<le> length (m_data broadcast_envelope)
   \<and> h256_bytes (topic_key broadcast_envelope 0 0) = take 32 (m_data broadcast_envelope)"
  using open_dispatch_on_secret [of 6 test_prims bare_envelope 0]
    open_dispatch_on_secret [of 0 test_prims broadcast_envelope 0]
  by (simp add: bare_envelope_def broadcast_envelope_def test_prims_def)

lemma populate_m_to: "populate P b m = Inr (ok, m') \<Longrightarrow> m_to m' = m_to m"
  by (auto simp add: populate_def Let_def split: if_splits sum.splits)

lemma Message_ctor_m_to:
  "m_to (Message_ctor P e s ti) = 0 \<or> KeyPair_pub P s = Inr (m_to (Message_ctor P e s ti))"
proof (cases "open_decrypt P e s ti")
  case (Inl f)
  then show ?thesis by (simp add: Message_ctor_def Message_default_def)
next
  case (Inr r)
  show ?thesis
  proof (cases r)
    case None
    with Inr show ?thesis by (simp add: Message_ctor_def Message_default_def)
  next
    case (Some b)
    show ?thesis
    proof (cases "populate P b Message_default")
      case (Inl f)
      with Inr Some show ?thesis by (simp add: Message_ctor_def Message_default_def)
    next
      case pop: (Inr okm)
      obtain ok m where okm: "okm = (ok, m)" by (cases okm)
      have "m_to m = 0"
        using populate_m_to [of P b Message_default ok m] pop okm
        by (simp add: Message_default_def)
      with Inr Some pop okm show ?thesis
        by (cases "KeyPair_pub P s") (simp_all add: Message_ctor_def)
    qed
  qed
qed

text \<open>
  C2. The constructor assigns \<^verbatim>\<open>m_to = KeyPair(_s).pub()\<close> after a successful parse on
  either path. On the public path the secret is zero, and zero is not a valid secret:
  \<^verbatim>\<open>KeyPair\<close> (not among the sources) yields the zero public key for it, or throws; this
  is the hypothesis. Then the recipient of an opened message is absent whenever the public
  path was taken, a present recipient is the public key of the nonzero candidate secret,
  and after a full success on the direct path the recipient is that public key.
\<close>

theorem recipient_only_on_direct_path:
  assumes "KeyPair_pub P 0 = Inr 0 \<or> KeyPair_pub P 0 = Inl Thrown"
  shows "(s = 0 \<longrightarrow> m_to (Envelope_open P dflt e s) = 0)
       \<and> (m_to (Envelope_open P dflt e s) \<noteq> 0 \<longrightarrow>
            s \<noteq> 0 \<and> KeyPair_pub P s = Inr (m_to (Envelope_open P dflt e s)))
       \<and> (\<forall>b m pk. s \<noteq> 0 \<and> open_decrypt P e s dflt = Inr (Some b)
              \<and> populate P b Message_default = Inr (True, m) \<and> KeyPair_pub P s = Inr pk
            \<longrightarrow> m_to (Envelope_open P dflt e s) = pk)"
proof -
  let ?M = "Message_ctor P e s dflt"
  have third: "m_to ?M = pk"
    if "open_decrypt P e s dflt = Inr (Some b)" "populate P b Message_default = Inr (True, m)"
      "KeyPair_pub P s = Inr pk" for b m pk
    using that by (simp add: Message_ctor_def)
  have key: "m_to ?M = 0 \<or> KeyPair_pub P s = Inr (m_to ?M)"
    by (rule Message_ctor_m_to)
  have zero: "m_to ?M = 0" if "s = 0"
    using key that assms by auto
  from key zero third show ?thesis
    unfolding Envelope_open_def by blast
qed

theorem recipient_only_on_direct_path_witness:
  "(KeyPair_pub test_prims 0 = Inr 0 \<or> KeyPair_pub test_prims 0 = Inl Thrown)
   \<and> open_decrypt test_prims broadcast_envelope 0 0 = Inr (Some [0, 104, 105])
   \<and> m_to (Envelope_open test_prims 0 broadcast_envelope 0) = 0
   \<and> (5 :: Secret) \<noteq> 0
   \<and> open_decrypt test_prims direct_envelope 5 0 = Inr (Some [0, 104, 105])
   \<and> populate test_prims [0, 104, 105] Message_default
        = Inr (True, \<lparr>m_payload = [104, 105], m_from = 0, m_to = 0\<rparr>)
   \<and> KeyPair_pub test_prims 5 = Inr 5
   \<and> m_to (Envelope_open test_prims 0 direct_envelope 5) = 5"
proof -
  have h: "KeyPair_pub test_prims 0 = Inr 0 \<or> KeyPair_pub test_prims 0 = Inl Thrown"
    by (simp add: test_prims_def)
  have a: "open_decrypt test_prims broadcast_envelope 0 0 = Inr (Some [0, 104, 105])"
    by (simp add: open_decrypt_def broadcast_envelope_def test_prims_def topic_key_def
        cropped_def cropped_from_def h256_of_bytes_def be_value_def)
  have b: "open_decrypt test_prims direct_envelope 5 0 = Inr (Some [0, 104, 105])"
    by (simp add: open_decrypt_def direct_envelope_def test_prims_def)
  have c: "populate test_prims [0, 104, 105] Message_default
        = Inr (True, \<lparr>m_payload = [104, 105], m_from = 0, m_to = 0\<rparr>)"
    by (simp add: populate_def ContainsSignature_def cropped_from_def Message_default_def)
  have d: "KeyPair_pub test_prims 5 = Inr 5"
    by (simp add: test_prims_def)
  have x: "m_to (Envelope_open test_prims 0 broadcast_envelope 0) = 0"
    using recipient_only_on_direct_path [OF h, of 0 0 broadcast_envelope, THEN conjunct1]
    by simp
  have s5: "(5 :: Secret) \<noteq> 0"
    by simp
  have y: "m_to (Envelope_open test_prims 0 direct_envelope 5) = 5"
    using recipient_only_on_direct_path [OF h, of 5 0 direct_envelope,
        THEN conjunct2, THEN conjunct2, rule_format, of "[0, 104, 105]" _ 5] s5 b c d
    by blast
  from h a x s5 b c d y show ?thesis
    by (intro conjI)
qed

text \<open>
  The faults of the two stages, spelled out: the decrypting stage delivers no frame when
  \<^verbatim>\<open>decrypt\<close> throws or returns false, or when the data is shorter than 32 bytes per
  topic; the parsing stage fails on an empty frame, and when \<^verbatim>\<open>recover\<close> throws or returns
  the zero key.
\<close>

lemma populate_False_iff:
  "(\<exists>m'. populate P b m = Inr (False, m')) \<longleftrightarrow>
     b = [] \<or> (hd b AND ContainsSignature \<noteq> 0 \<and> length b \<ge> sizeof_Signature + 1
               \<and> recover P (Signature_at b (1 + length (cropped b 1 (length b - sizeof_Signature - 1))))
                    (sha3 P (cropped b 1 (length b - sizeof_Signature - 1))) = Inr 0)"
  by (cases b) (auto simp add: populate_def Let_def split: sum.splits)

lemma populate_Thrown_iff:
  "populate P b m = Inl Thrown \<longleftrightarrow>
     b \<noteq> [] \<and> hd b AND ContainsSignature \<noteq> 0 \<and> length b \<ge> sizeof_Signature + 1
       \<and> recover P (Signature_at b (1 + length (cropped b 1 (length b - sizeof_Signature - 1))))
            (sha3 P (cropped b 1 (length b - sizeof_Signature - 1))) = Inl Thrown"
  by (cases b) (auto simp add: populate_def Let_def split: sum.splits fault.splits)

lemma open_decrypt_no_frame_iff:
  "open_decrypt P e s ti \<in> {Inl Thrown, Inr None} \<longleftrightarrow>
     (s \<noteq> 0 \<and> decrypt P s (m_data e) \<in> {Inl Thrown, Inr None})
     \<or> (s = 0 \<and> (length (m_data e) < length (m_topic e) * 32
          \<or> decrypt P (topic_key e s ti) (cropped_from (m_data e) (32 * length (m_topic e)))
               \<in> {Inl Thrown, Inr None}))"
  by (auto simp add: open_decrypt_def)

text \<open>
  C5. \<^verbatim>\<open>Envelope::open\<close> returns a message on every input: the handler of the constructor
  swallows what the primitives throw. Whenever the decrypting stage delivers no frame
  (exception, false result, failed size check) or the parsing stage rejects the frame
  (exception of \<^verbatim>\<open>recover\<close>, empty frame, zero key recovered), the message returned is
  the empty one: no payload, no sender, no recipient.
\<close>

theorem open_absorbs_faults:
  assumes "open_decrypt P e s dflt = Inl Thrown \<or> open_decrypt P e s dflt = Inr None
           \<or> (\<exists>b. open_decrypt P e s dflt = Inr (Some b)
                \<and> (populate P b Message_default = Inl Thrown
                    \<or> (\<exists>m. populate P b Message_default = Inr (False, m))))"
  shows "Envelope_open P dflt e s = Message_default"
  using assms populate_fail_default [of P]
  by (auto simp add: Envelope_open_def Message_ctor_def)

theorem open_absorbs_faults_witness:
  "open_decrypt test_prims bare_envelope 6 0 = Inr None
   \<and> Envelope_open test_prims 0 bare_envelope 6 = Message_default
   \<and> open_decrypt test_prims empty_frame_envelope 5 0 = Inr (Some [])
   \<and> populate test_prims [] Message_default = Inr (False, Message_default)
   \<and> Envelope_open test_prims 0 empty_frame_envelope 5 = Message_default"
proof -
  have a: "open_decrypt test_prims bare_envelope 6 0 = Inr None"
    by (simp add: open_decrypt_def bare_envelope_def test_prims_def)
  then have a': "Envelope_open test_prims 0 bare_envelope 6 = Message_default"
    using open_absorbs_faults [of test_prims bare_envelope 6 0] by simp
  have b: "open_decrypt test_prims empty_frame_envelope 5 0 = Inr (Some [])"
    by (simp add: open_decrypt_def empty_frame_envelope_def test_prims_def)
  have c: "populate test_prims [] Message_default = Inr (False, Message_default)"
    by (rule populate_empty)
  from b c have b': "Envelope_open test_prims 0 empty_frame_envelope 5 = Message_default"
    using open_absorbs_faults [of test_prims empty_frame_envelope 5 0] by blast
  from a a' b c b' show ?thesis
    by (intro conjI)
qed

text \<open>
  C9. When the decrypted frame is a single byte with the signature flag clear, parsing
  succeeds: the message has the empty payload and no sender, and the recipient is assigned.
  Its payload is that of the empty message returned on failure, so the payload alone does
  not tell the two apart.
\<close>

theorem open_single_byte_frame:
  assumes "open_decrypt P e s dflt = Inr (Some [f])"
    and "f AND ContainsSignature = 0"
  shows "populate P [f] Message_default = Inr (True, Message_default)
       \<and> m_payload (Envelope_open P dflt e s) = []
       \<and> m_from (Envelope_open P dflt e s) = 0
       \<and> m_payload (Envelope_open P dflt e s) = m_payload Message_default
       \<and> (\<forall>pk. KeyPair_pub P s = Inr pk \<longrightarrow>
             Envelope_open P dflt e s = Message_default\<lparr>m_to := pk\<rparr>)"
proof -
  have pop: "populate P [f] Message_default = Inr (True, Message_default)"
    using populate_unsigned [of "[f]" P Message_default] assms(2)
    by (simp add: Message_default_def)
  with assms(1) show ?thesis
    by (auto simp add: Envelope_open_def Message_ctor_def Message_default_def split: sum.splits)
qed

theorem open_single_byte_frame_witness:
  "open_decrypt test_prims bare_envelope 5 0 = Inr (Some [0])
   \<and> (0 :: byte) AND ContainsSignature = 0
   \<and> KeyPair_pub test_prims 5 = Inr 5
   \<and> Envelope_open test_prims 0 bare_envelope 5 = \<lparr>m_payload = [], m_from = 0, m_to = 5\<rparr>"
proof -
  have a: "open_decrypt test_prims bare_envelope 5 0 = Inr (Some [0])"
    by (simp add: open_decrypt_def bare_envelope_def test_prims_def)
  have b: "(0 :: byte) AND ContainsSignature = 0"
    by simp
  have c: "KeyPair_pub test_prims 5 = Inr 5"
    by (simp add: test_prims_def)
  show ?thesis
    using a b c open_single_byte_frame [OF a b] by (simp add: Message_default_def)
qed

subsection \<open>The search for a nonce\<close>

lemma pow_inner_add: "pow_inner P en (a + b) st = pow_inner P en b (pow_inner P en a st)"
  by (induction a arbitrary: st) simp_all

lemma pow_outer_rounds:
  assumes "\<forall>i<r. clock (k + i) < dl" and "\<not> clock (k + r) < dl"
  shows "pow_outer P en clock dl k st = Some (pow_inner P en (1024 * r) st)"
  using assms
proof (induction r arbitrary: k st)
  case 0
  then show ?case
    by (subst pow_outer.simps) simp
next
  case (Suc r)
  from Suc.prems(1) have now: "clock k < dl"
    by (metis add.right_neutral zero_less_Suc)
  have "\<forall>i<r. clock (Suc k + i) < dl"
    using Suc.prems(1) by (metis Suc_less_eq add_Suc_shift)
  moreover have "\<not> clock (Suc k + r) < dl"
    using Suc.prems(2) by simp
  ultimately have "pow_outer P en clock dl (Suc k) (pow_inner P en 1024 st)
      = Some (pow_inner P en (1024 * r) (pow_inner P en 1024 st))"
    by (rule Suc.IH)
  then have "pow_outer P en clock dl k st = Some (pow_inner P en (1024 + 1024 * r) st)"
    using now by (subst pow_outer.simps) (simp add: pow_inner_add)
  then show ?case
    by simp
qed

lemma clock_reaches:
  fixes clock :: "nat \<Rightarrow> nat" and k :: nat
  assumes "\<exists>j. \<not> clock (k + j) < (dl :: nat)"
  shows "\<exists>r. (\<forall>i<r. clock (k + i) < dl) \<and> \<not> clock (k + r) < dl"
proof -
  let ?r = "LEAST j. \<not> clock (k + j) < dl"
  have "\<not> clock (k + ?r) < dl"
    using assms by (rule LeastI_ex [of "\<lambda>j. \<not> clock (k + j) < dl"])
  moreover have "\<forall>i<?r. clock (k + i) < dl"
    using not_less_Least [of _ "\<lambda>j. \<not> clock (k + j) < dl"] by blast
  ultimately show ?thesis
    by blast
qed

lemma pow_outer_steps:
  assumes "pow_outer P en clock dl k st = Some st'"
  shows "\<exists>r. st' = pow_inner P en (1024 * r) st"
proof -
  let ?Q = "\<lambda>(((((P, en), clock :: nat \<Rightarrow> nat), dl :: nat), k :: nat), st) st'.
              \<exists>r. st' = pow_inner P en (1024 * r) st"
  have "?Q (((((P, en), clock), dl), k), st) st'"
  proof (rule pow_outer.raw_induct [where Pa = ?Q, OF _ assms])
    fix f P en and clock :: "nat \<Rightarrow> nat" and dl k :: nat and st y
    assume IH: "\<And>P en clock dl k st y.
        f P en clock dl k st = Some y \<Longrightarrow> ?Q (((((P, en), clock), dl), k), st) y"
      and eq: "(if clock k < dl then f P en clock dl (Suc k) (pow_inner P en 1024 st)
               else Some st) = Some y"
    show "?Q (((((P, en), clock), dl), k), st) y"
    proof (cases "clock k < dl")
      case True
      with eq have "f P en clock dl (Suc k) (pow_inner P en 1024 st) = Some y"
        by simp
      from IH [OF this] obtain r where "y = pow_inner P en (1024 * r) (pow_inner P en 1024 st)"
        by auto
      then have "y = pow_inner P en (1024 * Suc r) st"
        by (simp add: pow_inner_add)
      then have "\<exists>r'. y = pow_inner P en (1024 * r') st"
        by (rule exI [where x = "Suc r"])
      then show ?thesis
        by simp
    next
      case False
      with eq have "y = pow_inner P en (1024 * 0) st"
        by simp
      then have "\<exists>r'. y = pow_inner P en (1024 * r') st"
        by (rule exI [where x = 0])
      then show ?thesis
        by simp
    qed
  qed
  then show ?thesis
    by simp
qed

lemma set_n_block: "length pre = 60 \<Longrightarrow> set_n en (pre @ u32_bytes en n) v = pre @ u32_bytes en v"
  by (simp add: set_n_def length_u32_bytes)

lemma get_n_block: "length pre = 60 \<Longrightarrow> get_n en (pre @ u32_bytes en n) = n"
  by (simp add: get_n_def length_u32_bytes u32_of_bytes_u32_bytes)

lemma pow_body_d:
  assumes "pw_d st = pre @ u32_bytes en n" and "length pre = 60"
  shows "pw_d (pow_body P en st) = pre @ u32_bytes en (n + 1)"
  using assms by (simp add: pow_body_def Let_def set_n_block get_n_block)

lemma pow_inner_d:
  assumes "pw_d st = pre @ u32_bytes en n" and "length pre = 60"
  shows "pw_d (pow_inner P en j st) = pre @ u32_bytes en (n + of_nat j)"
  using assms
proof (induction j arbitrary: st n)
  case 0
  then show ?case by simp
next
  case (Suc j)
  have "pw_d (pow_body P en st) = pre @ u32_bytes en (n + 1)"
    using Suc.prems by (rule pow_body_d)
  from Suc.IH [OF this Suc.prems(2)] show ?case
    by (simp add: add.assoc)
qed

lemma length_h256_bytes: "length (h256_bytes h) = 32"
  by (simp add: h256_bytes_def length_be_bytes)

lemma pow_start_d:
  "pw_d (pow_start P H e)
   = (h256_bytes (Envelope_sha3_WithoutNonce P e) @ replicate 28 0) @ u32_bytes (byte_order H) 0"
  by (simp add: pow_start_def set_n_def length_h256_bytes)

lemma pow_search_d:
  "pw_d (pow_inner P (byte_order H) j (pow_start P H e)) = candidate_block P (byte_order H) e (of_nat j)"
proof -
  have "pw_d (pow_inner P (byte_order H) j (pow_start P H e))
      = (h256_bytes (Envelope_sha3_WithoutNonce P e) @ replicate 28 0)
          @ u32_bytes (byte_order H) (0 + of_nat j)"
    by (rule pow_inner_d [OF pow_start_d]) (simp add: length_h256_bytes)
  then show ?thesis
    by (simp add: candidate_block_def)
qed

lemma be_value_zeros: "be_value (replicate k 0 @ bs) = be_value bs"
  by (induction k) (simp_all add: be_value_def)

text \<open>
  C10. After \<open>j\<close> passes of the inner loop the array \<^verbatim>\<open>d\<close> holds \<^verbatim>\<open>d[0]\<close>, 28 zero
  bytes and the four bytes of the counter, which is \<open>j\<close> modulo \<open>2^32\<close>: read as a
  big-endian integer, \<^verbatim>\<open>d[1]\<close> stays below \<open>2^32\<close>, and \<open>2^32\<close> passes later the array
  is the same again, so the search hashes a block it has hashed before.
\<close>

theorem pow_counter_wraps:
  "pw_d (pow_inner P (byte_order H) j (pow_start P H e))
     = h256_bytes (Envelope_sha3_WithoutNonce P e) @ replicate 28 0
         @ u32_bytes (byte_order H) (of_nat j)
   \<and> be_value (drop 32 (pw_d (pow_inner P (byte_order H) j (pow_start P H e)))) < 2 ^ 32
   \<and> pw_d (pow_inner P (byte_order H) (j + 2 ^ 32) (pow_start P H e))
     = pw_d (pow_inner P (byte_order H) j (pow_start P H e))"
proof (intro conjI)
  show "pw_d (pow_inner P (byte_order H) j (pow_start P H e))
     = h256_bytes (Envelope_sha3_WithoutNonce P e) @ replicate 28 0
         @ u32_bytes (byte_order H) (of_nat j)"
    by (simp add: pow_search_d candidate_block_def)
next
  have "be_value (u32_bytes (byte_order H) (of_nat j)) < 256 ^ 4"
    using be_value_bound [of "u32_bytes (byte_order H) (of_nat j)"]
    by (simp add: length_u32_bytes)
  then show "be_value (drop 32 (pw_d (pow_inner P (byte_order H) j (pow_start P H e)))) < 2 ^ 32"
    by (simp add: pow_search_d candidate_block_def length_h256_bytes be_value_zeros)
next
  have wrap: "(of_nat (j + 2 ^ 32) :: 32 word) = of_nat j"
    by simp
  have "pw_d (pow_inner P (byte_order H) (j + 2 ^ 32) (pow_start P H e))
      = candidate_block P (byte_order H) e (of_nat (j + 2 ^ 32))"
    by (rule pow_search_d)
  also have "\<dots> = candidate_block P (byte_order H) e (of_nat j)"
    by (simp only: wrap)
  also have "\<dots> = pw_d (pow_inner P (byte_order H) j (pow_start P H e))"
    by (rule pow_search_d [symmetric])
  finally show "pw_d (pow_inner P (byte_order H) (j + 2 ^ 32) (pow_start P H e))
     = pw_d (pow_inner P (byte_order H) j (pow_start P H e))" .
qed

lemma candidate_block_split:
  "candidate_block P en e c
   = (h256_bytes (Envelope_sha3_WithoutNonce P e) @ replicate 28 0) @ u32_bytes en c"
  by (simp add: candidate_block_def)

lemma pow_body_eq:
  assumes "pw_d st = candidate_block P en e n"
  shows "pow_body P en st =
     (if firstBitSet (sha3 P (candidate_block P en e n)) > pw_bestBitSet st
      then st\<lparr>pw_bestBitSet := firstBitSet (sha3 P (candidate_block P en e n)),
              pw_this := (pw_this st)\<lparr>m_nonce := ucast n\<rparr>,
              pw_d := candidate_block P en e (n + 1)\<rparr>
      else st\<lparr>pw_d := candidate_block P en e (n + 1)\<rparr>)"
proof -
  have len: "length (h256_bytes (Envelope_sha3_WithoutNonce P e) @ replicate 28 (0 :: byte)) = 60"
    by (simp add: length_h256_bytes)
  have g: "get_n en (candidate_block P en e n) = n"
    unfolding candidate_block_split by (rule get_n_block [OF len])
  have s: "set_n en (candidate_block P en e n) (n + 1) = candidate_block P en e (n + 1)"
    unfolding candidate_block_split by (rule set_n_block [OF len])
  show ?thesis
    by (simp add: pow_body_def Let_def assms g s)
qed

lemma pow_inv_start: "pow_inv P (byte_order H) e (pow_start P H e)"
proof -
  have "pw_d (pow_start P H e) = candidate_block P (byte_order H) e 0"
    using pow_search_d [of P H 0 e] by simp
  then have "\<exists>n. pw_d (pow_start P H e) = candidate_block P (byte_order H) e n" ..
  then show ?thesis
    by (simp add: pow_inv_def) (simp add: pow_start_def)
qed

lemma pow_inv_body:
  assumes "pow_inv P en e st"
  shows "pow_inv P en e (pow_body P en st)"
proof -
  from assms obtain n where d: "pw_d st = candidate_block P en e n"
    by (auto simp add: pow_inv_def)
  from assms have self: "pw_this st = e\<lparr>m_nonce := m_nonce (pw_this st)\<rparr>"
    by (simp add: pow_inv_def)
  show ?thesis
  proof (cases "firstBitSet (sha3 P (candidate_block P en e n)) > pw_bestBitSet st")
    case True
    then have "pow_body P en st
        = st\<lparr>pw_bestBitSet := firstBitSet (sha3 P (candidate_block P en e n)),
              pw_this := (pw_this st)\<lparr>m_nonce := ucast n\<rparr>,
              pw_d := candidate_block P en e (n + 1)\<rparr>"
      by (simp add: pow_body_eq [OF d])
    moreover have "(pw_this st)\<lparr>m_nonce := ucast n\<rparr> = e\<lparr>m_nonce := ucast n\<rparr>"
      by (subst self) simp
    ultimately show ?thesis
      using True by (auto simp add: pow_inv_def)
  next
    case False
    then have "pow_body P en st = st\<lparr>pw_d := candidate_block P en e (n + 1)\<rparr>"
      by (simp add: pow_body_eq [OF d])
    with assms show ?thesis
      by (auto simp add: pow_inv_def)
  qed
qed

lemma pow_inv_inner: "pow_inv P en e st \<Longrightarrow> pow_inv P en e (pow_inner P en j st)"
  by (induction j arbitrary: st) (simp_all add: pow_inv_body)

lemma pow_inner_no_improvement:
  assumes "pw_d st = candidate_block P en e n"
    and "\<forall>i<j. firstBitSet (sha3 P (candidate_block P en e (n + of_nat i))) \<le> pw_bestBitSet st"
  shows "pow_inner P en j st = st\<lparr>pw_d := candidate_block P en e (n + of_nat j)\<rparr>"
  using assms
proof (induction j arbitrary: st n)
  case 0
  then show ?case by simp
next
  case (Suc j)
  from Suc.prems(2) [rule_format, of 0]
  have "firstBitSet (sha3 P (candidate_block P en e n)) \<le> pw_bestBitSet st"
    by simp
  then have body: "pow_body P en st = st\<lparr>pw_d := candidate_block P en e (n + 1)\<rparr>"
    by (simp add: pow_body_eq [OF Suc.prems(1)])
  have "\<forall>i<j. firstBitSet (sha3 P (candidate_block P en e (n + 1 + of_nat i)))
      \<le> pw_bestBitSet (pow_body P en st)"
  proof (intro allI impI)
    fix i assume "i < j"
    then have "firstBitSet (sha3 P (candidate_block P en e (n + of_nat (Suc i)))) \<le> pw_bestBitSet st"
      using Suc.prems(2) [rule_format, of "Suc i"] by simp
    then show "firstBitSet (sha3 P (candidate_block P en e (n + 1 + of_nat i)))
      \<le> pw_bestBitSet (pow_body P en st)"
      by (simp add: body add.assoc)
  qed
  moreover have "pw_d (pow_body P en st) = candidate_block P en e (n + 1)"
    by (simp add: body)
  ultimately have "pow_inner P en j (pow_body P en st)
      = (pow_body P en st)\<lparr>pw_d := candidate_block P en e (n + 1 + of_nat j)\<rparr>"
    by (rule Suc.IH [rotated])
  then show ?case
    by (simp add: body add.assoc)
qed

lemma firstBitSet_le: "firstBitSet h \<le> 256"
proof -
  have "length (takeWhile (\<lambda>i. \<not> bit h i) (rev [0..<256])) \<le> length (rev [0..<256])"
    by (rule length_takeWhile_le)
  then show ?thesis
    by (simp add: firstBitSet_def)
qed

lemma firstBitSet_zero: "firstBitSet 0 = 256"
proof -
  have "firstBitSet 0 = length (takeWhile (\<lambda>i. True) (rev [0..<256]))"
    by (simp add: firstBitSet_def)
  also have "takeWhile (\<lambda>i. True) (rev [0..<256]) = rev [0..<256]"
    by (simp add: takeWhile_eq_all_conv)
  finally show ?thesis
    by simp
qed

lemma firstBitSet_top: "bit h 255 \<Longrightarrow> firstBitSet h = 0"
proof -
  assume "bit h 255"
  have "[0..<256] = [0..<255] @ [255]"
    using upt_Suc_append [of 0 255] by simp
  then have "rev [0..<256] = 255 # rev [0..<255]"
    by simp
  with \<open>bit h 255\<close> show ?thesis
    by (simp add: firstBitSet_def)
qed

lemma firstBitSet_ones: "firstBitSet (- 1) = 0"
  by (rule firstBitSet_top) simp

lemma ticking_one_round:
  "pow_outer P en (now ticking_host) (deadline_of ticking_host 1) 1 st = Some (pow_inner P en 1024 st)"
proof -
  have "\<forall>i<1. now ticking_host (1 + i) < deadline_of ticking_host 1"
    by (simp add: ticking_host_def deadline_of_def)
  moreover have "\<not> now ticking_host (1 + 1) < deadline_of ticking_host 1"
    by (simp add: ticking_host_def deadline_of_def)
  ultimately have "pow_outer P en (now ticking_host) (deadline_of ticking_host 1) 1 st
      = Some (pow_inner P en (1024 * 1) st)"
    by (rule pow_outer_rounds)
  then show ?thesis by simp
qed

lemma u32_LE_0: "u32_bytes LittleEndian 0 = [0, 0, 0, 0]"
  by code_simp

lemma u32_LE_1: "u32_bytes LittleEndian 1 = [1, 0, 0, 0]"
  by code_simp

lemma h256_bytes_1: "drop 28 (h256_bytes 1) = [0, 0, 0, 1]"
  by code_simp

lemma marker_score:
  "firstBitSet (sha3 marker_prims (candidate_block marker_prims en e c))
   = (if u32_bytes en c = [1, 0, 0, 0] then 256 else 0)"
  by (simp add: marker_prims_def candidate_block_def length_h256_bytes firstBitSet_zero firstBitSet_ones)

text \<open>
  The state after \<open>j\<close> passes: either no block so far had a leading zero bit and nothing
  has been stored, or the envelope holds the first counter value of the highest score so
  far, and \<^verbatim>\<open>bestBitSet\<close> is that score.
\<close>

lemma pow_inner_Suc: "pow_inner P en (Suc j) st = pow_body P en (pow_inner P en j st)"
  using pow_inner_add [of P en j "Suc 0" st] by simp

lemma pow_search_step:
  "pow_inner P (byte_order H) (Suc j) (pow_start P H e) =
     (let st = pow_inner P (byte_order H) j (pow_start P H e) in
      if candidate_score P (byte_order H) e j > pw_bestBitSet st
      then st\<lparr>pw_bestBitSet := candidate_score P (byte_order H) e j,
              pw_this := (pw_this st)\<lparr>m_nonce := ucast (of_nat j :: 32 word)\<rparr>,
              pw_d := candidate_block P (byte_order H) e (of_nat j + 1)\<rparr>
      else st\<lparr>pw_d := candidate_block P (byte_order H) e (of_nat j + 1)\<rparr>)"
  by (simp add: pow_inner_Suc pow_body_eq [OF pow_search_d] candidate_score_def Let_def
      del: pow_inner.simps)

lemma pow_search_best:
  fixes P H e
  defines "sc \<equiv> candidate_score P (byte_order H) e"
  defines "S \<equiv> \<lambda>j. pow_inner P (byte_order H) j (pow_start P H e)"
  shows "(pw_bestBitSet (S j) = 0 \<and> pw_this (S j) = e \<and> (\<forall>k<j. sc k = 0))
       \<or> (\<exists>i<j. pw_this (S j) = e\<lparr>m_nonce := ucast (of_nat i :: 32 word)\<rparr>
              \<and> pw_bestBitSet (S j) = sc i \<and> 0 < sc i
              \<and> (\<forall>k<i. sc k < sc i) \<and> (\<forall>k<j. sc k \<le> sc i))"
proof (induction j)
  case 0
  show ?case by (simp add: S_def pow_start_def)
next
  case (Suc j)
  have step: "S (Suc j) =
     (if sc j > pw_bestBitSet (S j)
      then (S j)\<lparr>pw_bestBitSet := sc j,
              pw_this := (pw_this (S j))\<lparr>m_nonce := ucast (of_nat j :: 32 word)\<rparr>,
              pw_d := candidate_block P (byte_order H) e (of_nat j + 1)\<rparr>
      else (S j)\<lparr>pw_d := candidate_block P (byte_order H) e (of_nat j + 1)\<rparr>)"
    unfolding S_def sc_def using pow_search_step [of P H j e] by (simp add: Let_def)
  from Suc.IH show ?case
  proof (elim disjE conjE exE)
    assume best: "pw_bestBitSet (S j) = 0" and self: "pw_this (S j) = e"
      and zero: "\<forall>k<j. sc k = 0"
    show ?thesis
    proof (cases "0 < sc j")
      case True
      then have "pw_this (S (Suc j)) = e\<lparr>m_nonce := ucast (of_nat j :: 32 word)\<rparr>"
        and "pw_bestBitSet (S (Suc j)) = sc j"
        by (simp_all add: step best self)
      moreover have "\<forall>k<j. sc k < sc j"
        using zero True by simp
      moreover have "\<forall>k<Suc j. sc k \<le> sc j"
        using zero by (simp add: less_Suc_eq)
      ultimately have "\<exists>i<Suc j. pw_this (S (Suc j)) = e\<lparr>m_nonce := ucast (of_nat i :: 32 word)\<rparr>
              \<and> pw_bestBitSet (S (Suc j)) = sc i \<and> 0 < sc i
              \<and> (\<forall>k<i. sc k < sc i) \<and> (\<forall>k<Suc j. sc k \<le> sc i)"
        using True by (intro exI [of _ j]) simp
      then show ?thesis ..
    next
      case False
      then have "pw_this (S (Suc j)) = e" and "pw_bestBitSet (S (Suc j)) = 0"
        by (simp_all add: step best self)
      moreover have "\<forall>k<Suc j. sc k = 0"
        using zero False by (simp add: less_Suc_eq)
      ultimately show ?thesis by simp
    qed
  next
    fix i
    assume i: "i < j"
      and self: "pw_this (S j) = e\<lparr>m_nonce := ucast (of_nat i :: 32 word)\<rparr>"
      and best: "pw_bestBitSet (S j) = sc i" and pos: "0 < sc i"
      and first: "\<forall>k<i. sc k < sc i" and top: "\<forall>k<j. sc k \<le> sc i"
    show ?thesis
    proof (cases "sc i < sc j")
      case True
      then have "pw_this (S (Suc j)) = e\<lparr>m_nonce := ucast (of_nat j :: 32 word)\<rparr>"
        and "pw_bestBitSet (S (Suc j)) = sc j"
        by (simp_all add: step best self)
      moreover have "\<forall>k<j. sc k < sc j"
        using top True by (meson le_less_trans)
      moreover have "\<forall>k<Suc j. sc k \<le> sc j"
        using \<open>\<forall>k<j. sc k < sc j\<close> by (simp add: less_Suc_eq less_imp_le)
      moreover have "0 < sc j"
        using pos True by simp
      ultimately have "\<exists>i<Suc j. pw_this (S (Suc j)) = e\<lparr>m_nonce := ucast (of_nat i :: 32 word)\<rparr>
              \<and> pw_bestBitSet (S (Suc j)) = sc i \<and> 0 < sc i
              \<and> (\<forall>k<i. sc k < sc i) \<and> (\<forall>k<Suc j. sc k \<le> sc i)"
        by (intro exI [of _ j]) simp
      then show ?thesis ..
    next
      case False
      then have "pw_this (S (Suc j)) = e\<lparr>m_nonce := ucast (of_nat i :: 32 word)\<rparr>"
        and "pw_bestBitSet (S (Suc j)) = sc i"
        by (simp_all add: step best self)
      moreover have "\<forall>k<Suc j. sc k \<le> sc i"
        using top False by (simp add: less_Suc_eq)
      moreover have "i < Suc j"
        using i by simp
      ultimately have "\<exists>i<Suc j. pw_this (S (Suc j)) = e\<lparr>m_nonce := ucast (of_nat i :: 32 word)\<rparr>
              \<and> pw_bestBitSet (S (Suc j)) = sc i \<and> 0 < sc i
              \<and> (\<forall>k<i. sc k < sc i) \<and> (\<forall>k<Suc j. sc k \<le> sc i)"
        using pos first by (intro exI [of _ i]) simp
      then show ?thesis ..
    qed
  qed
qed

lemma ticking_rounds_1:
  assumes "\<not> now ticking_host (1 + r) < deadline_of ticking_host 1"
    and "\<forall>i<r. now ticking_host (1 + i) < deadline_of ticking_host 1"
  shows "r = 1"
proof -
  from assms(1) have "r \<noteq> 0"
    by (auto simp add: ticking_host_def deadline_of_def)
  moreover have "\<not> 1 < r"
  proof
    assume "1 < r"
    with assms(2) have "now ticking_host (1 + 1) < deadline_of ticking_host 1"
      by blast
    then show False
      by (simp add: ticking_host_def deadline_of_def)
  qed
  ultimately show ?thesis by simp
qed

lemma marker_candidate_score:
  "candidate_score marker_prims LittleEndian e k
   = (if (of_nat k :: 32 word) = 1 then 256 else 0)"
proof -
  have "u32_bytes LittleEndian (of_nat k) = [1, 0, 0, 0] \<longleftrightarrow> (of_nat k :: 32 word) = 1"
  proof
    assume "u32_bytes LittleEndian (of_nat k) = [1, 0, 0, 0]"
    then have "u32_bytes LittleEndian (of_nat k) = u32_bytes LittleEndian 1"
      by (simp add: u32_LE_1)
    then have "u32_of_bytes LittleEndian (u32_bytes LittleEndian (of_nat k))
        = u32_of_bytes LittleEndian (u32_bytes LittleEndian 1)"
      by simp
    then show "(of_nat k :: 32 word) = 1"
      by (simp only: u32_of_bytes_u32_bytes)
  next
    assume "(of_nat k :: 32 word) = 1"
    then show "u32_bytes LittleEndian (of_nat k) = [1, 0, 0, 0]"
      by (simp add: u32_LE_1)
  qed
  then show ?thesis
    by (simp add: candidate_score_def marker_score)
qed

text \<open>
  C4. When the clock reaches the deadline at some reading, \<^verbatim>\<open>proveWork\<close> returns after a
  whole number \<open>r\<close> of rounds, and the envelope it leaves differs from the one it was
  given in the nonce at most. Whenever one of the \<open>1024 * r\<close> blocks hashed has a leading
  zero bit, a nonce is stored: the first counter value whose block has the highest score
  among those hashed. Only when the deadline has passed at the first reading, or no block
  hashed has a leading zero bit, is the envelope returned as it was.
\<close>

theorem proveWork_terminates:
  assumes "\<exists>j. \<not> now H (1 + j) < deadline_of H ms"
  shows "\<exists>r e'. (\<forall>i<r. now H (1 + i) < deadline_of H ms) \<and> \<not> now H (1 + r) < deadline_of H ms
          \<and> proveWork P H ms e = Some e'
          \<and> e' = e\<lparr>m_nonce := m_nonce e'\<rparr>
          \<and> (\<not> now H 1 < deadline_of H ms \<longrightarrow> e' = e)
          \<and> ((\<forall>k<1024 * r. candidate_score P (byte_order H) e k = 0) \<longrightarrow> e' = e)
          \<and> ((\<exists>k<1024 * r. 0 < candidate_score P (byte_order H) e k) \<longrightarrow>
               (\<exists>i<1024 * r. m_nonce e' = ucast (of_nat i :: 32 word)
                  \<and> 0 < candidate_score P (byte_order H) e i
                  \<and> (\<forall>k<i. candidate_score P (byte_order H) e k
                              < candidate_score P (byte_order H) e i)
                  \<and> (\<forall>k<1024 * r. candidate_score P (byte_order H) e k
                              \<le> candidate_score P (byte_order H) e i)))"
proof -
  let ?en = "byte_order H"
  let ?sc = "candidate_score P ?en e"
  from clock_reaches [OF assms] obtain r
    where before: "\<forall>i<r. now H (1 + i) < deadline_of H ms"
      and at: "\<not> now H (1 + r) < deadline_of H ms"
    by blast
  let ?final = "pow_inner P ?en (1024 * r) (pow_start P H e)"
  have run: "pow_outer P ?en (now H) (deadline_of H ms) 1 (pow_start P H e) = Some ?final"
    using before at by (rule pow_outer_rounds)
  then have res: "proveWork P H ms e = Some (pw_this ?final)"
    by (simp add: proveWork_def)
  have best: "(pw_bestBitSet ?final = 0 \<and> pw_this ?final = e \<and> (\<forall>k<1024 * r. ?sc k = 0))
       \<or> (\<exists>i<1024 * r. pw_this ?final = e\<lparr>m_nonce := ucast (of_nat i :: 32 word)\<rparr>
              \<and> pw_bestBitSet ?final = ?sc i \<and> 0 < ?sc i
              \<and> (\<forall>k<i. ?sc k < ?sc i) \<and> (\<forall>k<1024 * r. ?sc k \<le> ?sc i))"
    by (rule pow_search_best)
  have same: "pw_this ?final = e\<lparr>m_nonce := m_nonce (pw_this ?final)\<rparr>"
    using best by auto
  have immediate: "pw_this ?final = e" if "\<not> now H 1 < deadline_of H ms"
  proof -
    have "r = 0"
    proof (rule ccontr)
      assume "r \<noteq> 0"
      then have "now H (1 + 0) < deadline_of H ms"
        using before by blast
      with that show False by simp
    qed
    then show ?thesis
      by (simp add: pow_start_def)
  qed
  have flat: "pw_this ?final = e" if "\<forall>k<1024 * r. ?sc k = 0"
  proof -
    from best show ?thesis
    proof
      assume "pw_bestBitSet ?final = 0 \<and> pw_this ?final = e \<and> (\<forall>k<1024 * r. ?sc k = 0)"
      then show ?thesis by simp
    next
      assume "\<exists>i<1024 * r. pw_this ?final = e\<lparr>m_nonce := ucast (of_nat i :: 32 word)\<rparr>
              \<and> pw_bestBitSet ?final = ?sc i \<and> 0 < ?sc i
              \<and> (\<forall>k<i. ?sc k < ?sc i) \<and> (\<forall>k<1024 * r. ?sc k \<le> ?sc i)"
      then obtain i where "i < 1024 * r" and "0 < ?sc i" by blast
      with that show ?thesis by simp
    qed
  qed
  have stored: "\<exists>i<1024 * r. m_nonce (pw_this ?final) = ucast (of_nat i :: 32 word)
                  \<and> 0 < ?sc i \<and> (\<forall>k<i. ?sc k < ?sc i) \<and> (\<forall>k<1024 * r. ?sc k \<le> ?sc i)"
    if "\<exists>k<1024 * r. 0 < ?sc k"
  proof -
    from best show ?thesis
    proof
      assume "pw_bestBitSet ?final = 0 \<and> pw_this ?final = e \<and> (\<forall>k<1024 * r. ?sc k = 0)"
      with that show ?thesis by auto
    next
      assume "\<exists>i<1024 * r. pw_this ?final = e\<lparr>m_nonce := ucast (of_nat i :: 32 word)\<rparr>
              \<and> pw_bestBitSet ?final = ?sc i \<and> 0 < ?sc i
              \<and> (\<forall>k<i. ?sc k < ?sc i) \<and> (\<forall>k<1024 * r. ?sc k \<le> ?sc i)"
      then obtain i where "i < 1024 * r"
        and "pw_this ?final = e\<lparr>m_nonce := ucast (of_nat i :: 32 word)\<rparr>"
        and "0 < ?sc i" and "\<forall>k<i. ?sc k < ?sc i" and "\<forall>k<1024 * r. ?sc k \<le> ?sc i"
        by blast
      then have "i < 1024 * r \<and> m_nonce (pw_this ?final) = ucast (of_nat i :: 32 word)
                  \<and> 0 < ?sc i \<and> (\<forall>k<i. ?sc k < ?sc i) \<and> (\<forall>k<1024 * r. ?sc k \<le> ?sc i)"
        by simp
      then show ?thesis by blast
    qed
  qed
  from before at res same immediate flat stored show ?thesis
    by blast
qed

theorem proveWork_terminates_witness:
  "(\<exists>j. \<not> now ticking_host (1 + j) < deadline_of ticking_host 0)
   \<and> proveWork test_prims ticking_host 0 stale_envelope = Some stale_envelope
   \<and> (\<exists>j. \<not> now ticking_host (1 + j) < deadline_of ticking_host 1)
   \<and> proveWork flat_prims ticking_host 1 stale_envelope = Some stale_envelope
   \<and> candidate_score marker_prims (byte_order ticking_host) stale_envelope 1 = 256
   \<and> proveWork marker_prims ticking_host 1 stale_envelope
       = Some (stale_envelope\<lparr>m_nonce := 1\<rparr>)"
proof -
  have en: "byte_order ticking_host = LittleEndian"
    by (simp add: ticking_host_def)
  have now0: "\<not> now ticking_host 1 < deadline_of ticking_host 0"
    by (simp add: ticking_host_def deadline_of_def)
  then have h0: "\<exists>j. \<not> now ticking_host (1 + j) < deadline_of ticking_host 0"
    by (intro exI [of _ 0]) simp
  have "\<not> now ticking_host (1 + 1) < deadline_of ticking_host 1"
    by (simp add: ticking_host_def deadline_of_def)
  then have h1: "\<exists>j. \<not> now ticking_host (1 + j) < deadline_of ticking_host 1" ..
  have r0: "proveWork test_prims ticking_host 0 stale_envelope = Some stale_envelope"
    using proveWork_terminates [OF h0, of test_prims stale_envelope] now0 by auto
  have r1: "proveWork flat_prims ticking_host 1 stale_envelope = Some stale_envelope"
  proof -
    from proveWork_terminates [OF h1, of flat_prims stale_envelope] obtain r e'
      where res: "proveWork flat_prims ticking_host 1 stale_envelope = Some e'"
        and flat: "(\<forall>k<1024 * r. candidate_score flat_prims (byte_order ticking_host)
                       stale_envelope k = 0) \<longrightarrow> e' = stale_envelope"
      by blast
    have "candidate_score flat_prims (byte_order ticking_host) stale_envelope k = 0" for k
      by (simp add: candidate_score_def flat_prims_def firstBitSet_ones)
    with flat have "e' = stale_envelope" by simp
    with res show ?thesis by simp
  qed
  have sc1: "candidate_score marker_prims (byte_order ticking_host) stale_envelope 1 = 256"
    by (simp add: en marker_candidate_score)
  have r2: "proveWork marker_prims ticking_host 1 stale_envelope
       = Some (stale_envelope\<lparr>m_nonce := 1\<rparr>)"
  proof -
    let ?sc = "candidate_score marker_prims (byte_order ticking_host) stale_envelope"
    from proveWork_terminates [OF h1, of marker_prims stale_envelope] obtain r e'
      where before: "\<forall>i<r. now ticking_host (1 + i) < deadline_of ticking_host 1"
        and at: "\<not> now ticking_host (1 + r) < deadline_of ticking_host 1"
        and res: "proveWork marker_prims ticking_host 1 stale_envelope = Some e'"
        and same: "e' = stale_envelope\<lparr>m_nonce := m_nonce e'\<rparr>"
        and stored: "(\<exists>k<1024 * r. 0 < ?sc k) \<longrightarrow>
               (\<exists>i<1024 * r. m_nonce e' = ucast (of_nat i :: 32 word) \<and> 0 < ?sc i
                  \<and> (\<forall>k<i. ?sc k < ?sc i) \<and> (\<forall>k<1024 * r. ?sc k \<le> ?sc i))"
      by blast
    have r: "r = 1"
      using at before by (rule ticking_rounds_1)
    have "(1 :: nat) < 1024 * r \<and> 0 < ?sc 1"
      using sc1 r by simp
    then have "\<exists>k<1024 * r. 0 < ?sc k" by blast
    with stored obtain i where i: "m_nonce e' = ucast (of_nat i :: 32 word)" and pos: "0 < ?sc i"
      by blast
    from pos have "(of_nat i :: 32 word) = 1"
      by (simp add: en marker_candidate_score split: if_splits)
    with i have "m_nonce e' = 1" by simp
    with same have "e' = stale_envelope\<lparr>m_nonce := 1\<rparr>" by simp
    with res show ?thesis by simp
  qed
  from h0 r0 h1 r1 sc1 r2 show ?thesis
    by (intro conjI)
qed

text \<open>
  The stronger reading of C4, that a nonce is stored on every call, fails: with a budget of
  0 ms no block is hashed and nothing is stored. The envelope keeps the nonce it came with,
  here \<open>2^40\<close>, which is no value of the 32-bit counter.
\<close>

theorem proveWork_zero_budget_stores_nothing:
  "proveWork test_prims ticking_host 0 stale_envelope = Some stale_envelope
   \<and> \<not> m_nonce stale_envelope < 2 ^ 32"
proof -
  have "\<not> now ticking_host 1 < deadline_of ticking_host 0"
    by (simp add: ticking_host_def deadline_of_def)
  then have "pow_outer test_prims (byte_order ticking_host) (now ticking_host)
      (deadline_of ticking_host 0) 1 (pow_start test_prims ticking_host stale_envelope)
      = Some (pow_start test_prims ticking_host stale_envelope)"
    by (subst pow_outer.simps) simp
  then have "proveWork test_prims ticking_host 0 stale_envelope = Some stale_envelope"
    by (simp add: proveWork_def pow_start_def)
  moreover have "\<not> m_nonce stale_envelope < 2 ^ 32"
    by (simp add: stale_envelope_def)
  ultimately show ?thesis ..
qed

text \<open>
  On a big-endian host the block hashed for a counter value is the one \<^verbatim>\<open>workProved\<close>
  hashes for that value as nonce, so there the score \<^verbatim>\<open>workProved\<close> returns for a stored
  nonce is the score the search saw.
\<close>

lemma be_bytes_zero: "be_bytes k 0 = replicate k 0"
  by (induction k) (simp_all add: replicate_append_same)

lemma be_bytes_pad: "v < 256 ^ m \<Longrightarrow> be_bytes (k + m) v = replicate k 0 @ be_bytes m v"
proof (induction m arbitrary: v)
  case 0
  then show ?case by (simp add: be_bytes_zero)
next
  case (Suc m)
  from Suc.prems have "v div 256 < 256 ^ m"
    by (simp add: less_mult_imp_div_less)
  then have "be_bytes (k + m) (v div 256) = replicate k 0 @ be_bytes m (v div 256)"
    by (rule Suc.IH)
  then show ?case by simp
qed

lemma h256_bytes_u32: "h256_bytes (ucast c) = replicate 28 0 @ be_bytes 4 (unat c)"
  for c :: "32 word"
proof -
  have "unat c < 256 ^ 4"
    using unsigned_less [of c] by simp
  then have "be_bytes (28 + 4) (unat c) = replicate 28 0 @ be_bytes 4 (unat c)"
    by (rule be_bytes_pad)
  moreover have "unat (ucast c :: h256) = unat c"
  proof -
    have "unat (ucast c :: h256) = take_bit 256 (unat c)"
      by (simp add: unsigned_ucast_eq)
    also have "\<dots> = unat c"
      using \<open>unat c < 256 ^ 4\<close> by (simp add: take_bit_nat_eq_self)
    finally show ?thesis .
  qed
  ultimately show ?thesis
    by (simp add: h256_bytes_def)
qed

lemma candidate_block_big_endian:
  "candidate_block P BigEndian e c
   = h256_bytes (Envelope_sha3_WithoutNonce P e) @ h256_bytes (ucast c)"
  by (simp add: candidate_block_def u32_bytes_def h256_bytes_u32)

lemma workProved_big_endian:
  "workProved P (e\<lparr>m_nonce := ucast c\<rparr>) = firstBitSet (sha3 P (candidate_block P BigEndian e c))"
  by (simp add: workProved_def candidate_block_big_endian Envelope_sha3_WithoutNonce_def)

text \<open>
  C3. On a little-endian host the four bytes of the counter are stored least significant
  first, so the block hashed for the counter value 1 ends in 1, 0, 0, 0, while
  \<^verbatim>\<open>workProved\<close> writes the stored nonce 1 as a big-endian integer and hashes a block that
  ends in 0, 0, 0, 1. With a hash that tells the two apart, one round of the search finds
  the score 256 at the counter value 1 and stores the nonce 1, and \<^verbatim>\<open>workProved\<close> of the
  result is 0.
\<close>

theorem proveWork_little_endian_mismatch:
  "proveWork marker_prims ticking_host 1 direct_envelope = Some (direct_envelope\<lparr>m_nonce := 1\<rparr>)
   \<and> map_option pw_bestBitSet
        (pow_outer marker_prims (byte_order ticking_host) (now ticking_host)
           (deadline_of ticking_host 1) 1 (pow_start marker_prims ticking_host direct_envelope))
       = Some 256
   \<and> workProved marker_prims (direct_envelope\<lparr>m_nonce := 1\<rparr>) = 0"
proof -
  let ?P = marker_prims
  let ?e = direct_envelope
  let ?start = "pow_start ?P ticking_host ?e"
  have en: "byte_order ticking_host = LittleEndian"
    by (simp add: ticking_host_def)
  have d0: "pw_d ?start = candidate_block ?P LittleEndian ?e 0"
    using pow_search_d [of ?P ticking_host 0 ?e] by (simp add: en)
  have s1: "pow_body ?P LittleEndian ?start = ?start\<lparr>pw_d := candidate_block ?P LittleEndian ?e 1\<rparr>"
    by (simp add: pow_body_eq [OF d0] marker_score u32_LE_0)
  let ?s1 = "?start\<lparr>pw_d := candidate_block ?P LittleEndian ?e 1\<rparr>"
  have d1: "pw_d ?s1 = candidate_block ?P LittleEndian ?e 1"
    by simp
  have b0: "pw_bestBitSet ?s1 = 0"
    by (simp add: pow_start_def)
  let ?s2 = "\<lparr>pw_d = candidate_block ?P LittleEndian ?e 2, pw_bestBitSet = 256,
              pw_this = ?e\<lparr>m_nonce := 1\<rparr>\<rparr>"
  have s2: "pow_body ?P LittleEndian ?s1 = ?s2"
    by (simp add: pow_body_eq [OF d1] marker_score u32_LE_1 b0) (simp add: pow_start_def)
  have d2: "pw_d ?s2 = candidate_block ?P LittleEndian ?e 2"
    by simp
  have "\<forall>i<1022. firstBitSet (sha3 ?P (candidate_block ?P LittleEndian ?e (2 + of_nat i)))
      \<le> pw_bestBitSet ?s2"
    by (simp add: firstBitSet_le)
  with d2 have rest: "pow_inner ?P LittleEndian 1022 ?s2
      = ?s2\<lparr>pw_d := candidate_block ?P LittleEndian ?e (2 + of_nat 1022)\<rparr>"
    by (rule pow_inner_no_improvement)
  have "pow_inner ?P LittleEndian (Suc (Suc 0) + 1022) ?start
      = pow_inner ?P LittleEndian 1022 (pow_inner ?P LittleEndian (Suc (Suc 0)) ?start)"
    by (rule pow_inner_add)
  then have round: "pow_inner ?P LittleEndian 1024 ?start
      = ?s2\<lparr>pw_d := candidate_block ?P LittleEndian ?e (2 + of_nat 1022)\<rparr>"
    by (simp add: s1 s2 rest)
  have run: "pow_outer ?P LittleEndian (now ticking_host) (deadline_of ticking_host 1) 1 ?start
      = Some (?s2\<lparr>pw_d := candidate_block ?P LittleEndian ?e (2 + of_nat 1022)\<rparr>)"
    using ticking_one_round [of ?P LittleEndian ?start] by (simp add: round)
  have w: "workProved ?P (?e\<lparr>m_nonce := 1\<rparr>) = 0"
    by (simp add: workProved_def marker_prims_def length_h256_bytes h256_bytes_1 firstBitSet_ones)
  from run w show ?thesis
    by (simp add: proveWork_def en)
qed

subsection \<open>Sealing and opening\<close>

lemma proveWork_keeps_fields:
  assumes "proveWork P H ms e = Some e'"
  shows "e' = e\<lparr>m_nonce := m_nonce e'\<rparr>"
proof -
  from assms obtain st where run: "pow_outer P (byte_order H) (now H) (deadline_of H ms) 1
      (pow_start P H e) = Some st" and e': "e' = pw_this st"
    by (auto simp add: proveWork_def)
  from pow_outer_steps [OF run] obtain r
    where "st = pow_inner P (byte_order H) (1024 * r) (pow_start P H e)" ..
  then have "pow_inv P (byte_order H) e st"
    by (simp add: pow_inv_inner [OF pow_inv_start])
  with e' show ?thesis
    by (simp add: pow_inv_def)
qed

lemma proveWork_immediate:
  assumes "\<not> now H 1 < deadline_of H ms"
  shows "proveWork P H ms e = Some e"
proof -
  from assms have "pow_outer P (byte_order H) (now H) (deadline_of H ms) 1 (pow_start P H e)
      = Some (pow_start P H e)"
    by (subst pow_outer.simps) simp
  then show ?thesis
    by (simp add: proveWork_def pow_start_def)
qed

lemma seal_input_unsigned: "seal_input P msg 0 = Inr (0 # m_payload msg)"
  by (simp add: seal_input_def)

lemma seal_input_signed:
  assumes "from \<noteq> 0" and "seal_input P msg from = Inr input"
  shows "\<exists>sig pk. input = (0 OR ContainsSignature) # m_payload msg @ Signature_bytes sig
           \<and> recover P sig (sha3 P (m_payload msg)) = Inr pk
           \<and> KeyPair_pub P from = Inr pk"
  using assms
  by (auto simp add: seal_input_def Let_def Signature_at_frame split: sum.splits if_splits)

lemma seal_input_signed_eq:
  assumes "from \<noteq> 0"
    and "sign P from (sha3 P (m_payload msg)) = Inr sig"
    and "recover P sig (sha3 P (m_payload msg)) = Inr pk"
    and "KeyPair_pub P from = Inr pk"
  shows "seal_input P msg from = Inr ((0 OR ContainsSignature) # m_payload msg @ Signature_bytes sig)"
  using assms by (simp add: seal_input_def Let_def Signature_at_frame)

lemma seal_Some:
  assumes "seal P H msg from topic ttl work = Some (Inr env)"
  shows "\<exists>input. seal_input P msg from = Inr input
           \<and> (if m_to msg \<noteq> 0 then encrypt P (m_to msg) input = Inr (m_data env)
               else m_data env = input)
           \<and> m_topic env = topic"
proof -
  from assms obtain input where inp: "seal_input P msg from = Inr input"
    by (cases "seal_input P msg from") (auto simp add: seal_def)
  let ?ret = "\<lparr>m_expiry = word_of_int (time0 H + uint ttl), m_ttl = ttl, m_topic = topic,
               m_data = [], m_nonce = 0\<rparr>"
  let ?enc = "if m_to msg \<noteq> 0 then encrypt P (m_to msg) input else Inr input"
  from assms inp obtain data where enc: "?enc = Inr data"
    and pw: "proveWork P H work (?ret\<lparr>m_data := data\<rparr>) = Some env"
    by (cases ?enc) (auto simp add: seal_def split: if_splits)
  from proveWork_keeps_fields [OF pw] have "m_data env = data" and "m_topic env = topic"
    by (metis Envelope.select_convs Envelope.surjective Envelope.update_convs)+
  with inp enc show ?thesis
    by (auto split: if_splits)
qed

lemma seal_immediate:
  assumes "\<not> now H 1 < deadline_of H work"
    and "seal_input P msg from = Inr input"
    and "(if m_to msg \<noteq> 0 then encrypt P (m_to msg) input else Inr input) = Inr data"
  shows "seal P H msg from topic ttl work
         = Some (Inr \<lparr>m_expiry = word_of_int (time0 H + uint ttl), m_ttl = ttl, m_topic = topic,
                       m_data = data, m_nonce = 0\<rparr>)"
  using assms(2,3) by (simp add: seal_def proveWork_immediate [OF assms(1)])

lemma Message_ctor_parsed:
  assumes "open_decrypt P e s ti = Inr (Some b)" and "populate P b Message_default = Inr (ok, m)"
  shows "m_payload (Message_ctor P e s ti) = m_payload m \<and> m_from (Message_ctor P e s ti) = m_from m"
  using assms by (cases "KeyPair_pub P s") (simp_all add: Message_ctor_def)

lemma open_sealed_frame:
  assumes "seal_input P msg from = Inr input"
    and "open_decrypt P env s ti = Inr (Some input)"
  shows "(from = 0 \<longrightarrow> m_from (Message_ctor P env s ti) = 0
                      \<and> m_payload (Message_ctor P env s ti) = m_payload msg)
       \<and> (from \<noteq> 0 \<longrightarrow> KeyPair_pub P from = Inr (m_from (Message_ctor P env s ti))
                      \<and> (m_from (Message_ctor P env s ti) \<noteq> 0
                           \<longrightarrow> m_payload (Message_ctor P env s ti) = m_payload msg))"
proof (cases "from = 0")
  case True
  with assms(1) have input: "input = 0 # m_payload msg"
    by (simp add: seal_input_unsigned)
  have "populate P input Message_default = Inr (True, Message_default\<lparr>m_payload := tl input\<rparr>)"
    by (rule populate_unsigned) (simp_all add: input)
  from Message_ctor_parsed [OF assms(2) this] True show ?thesis
    by (simp add: input Message_default_def)
next
  case False
  from seal_input_signed [OF False assms(1)] obtain sig pk
    where input: "input = (0 OR ContainsSignature) # m_payload msg @ Signature_bytes sig"
      and rec: "recover P sig (sha3 P (m_payload msg)) = Inr pk"
      and pub: "KeyPair_pub P from = Inr pk"
    by blast
  show ?thesis
  proof (cases "pk = 0")
    case True
    with populate_signed [OF rec, of 0 Message_default]
    have "populate P input Message_default = Inr (False, Message_default\<lparr>m_from := pk\<rparr>)"
      by (simp add: input)
    from Message_ctor_parsed [OF assms(2) this] False pub True show ?thesis
      by (simp add: Message_default_def)
  next
    case nz: False
    with populate_signed [OF rec, of 0 Message_default]
    have "populate P input Message_default
        = Inr (True, Message_default\<lparr>m_from := pk, m_payload := m_payload msg\<rparr>)"
      by (simp add: input)
    from Message_ctor_parsed [OF assms(2) this] False pub show ?thesis
      by simp
  qed
qed

text \<open>
  C1. When a recipient key is set on the message, \<^verbatim>\<open>seal\<close> encrypts the frame for it, and
  \<^verbatim>\<open>open\<close> with a nonzero secret under which \<^verbatim>\<open>decrypt\<close> inverts that encryption returns
  a message with the payload that was sealed. A sender secret, when given, must have a
  public key (not the zero key): \<^verbatim>\<open>populate\<close> keeps the payload only when the recovered
  key is nonzero.
\<close>

theorem seal_open_round_trip:
  assumes "m_to msg \<noteq> 0"
    and "s \<noteq> 0"
    and "\<forall>x c. encrypt P (m_to msg) x = Inr c \<longrightarrow> decrypt P s c = Inr (Some x)"
    and "from \<noteq> 0 \<longrightarrow> KeyPair_pub P from \<noteq> Inr 0"
    and "seal P H msg from topic ttl work = Some (Inr env)"
  shows "m_payload (Envelope_open P dflt env s) = m_payload msg"
proof -
  from seal_Some [OF assms(5)] assms(1) obtain input
    where inp: "seal_input P msg from = Inr input"
      and enc: "encrypt P (m_to msg) input = Inr (m_data env)"
    by auto
  from assms(3) enc have "decrypt P s (m_data env) = Inr (Some input)"
    by blast
  with assms(2) have dec: "open_decrypt P env s dflt = Inr (Some input)"
    by (simp add: open_decrypt_def)
  from open_sealed_frame [OF inp dec] assms(4) show ?thesis
    unfolding Envelope_open_def by (cases "from = 0") auto
qed

theorem seal_open_round_trip_witness:
  "m_to signed_message \<noteq> 0 \<and> (5 :: Secret) \<noteq> 0
   \<and> KeyPair_pub test_prims 7 = Inr 7
   \<and> seal test_prims ticking_host signed_message 7 [7] 60 0 = Some (Inr signed_envelope)
   \<and> m_payload (Envelope_open test_prims 0 signed_envelope 5) = [104, 105]"
proof -
  have to: "m_to signed_message \<noteq> 0"
    by (simp add: signed_message_def)
  have s5: "(5 :: Secret) \<noteq> 0"
    by simp
  have law: "\<forall>x c. encrypt test_prims (m_to signed_message) x = Inr c
          \<longrightarrow> decrypt test_prims 5 c = Inr (Some x)"
    by (auto simp add: test_prims_def signed_message_def)
  have signer: "(7 :: Secret) \<noteq> 0 \<longrightarrow> KeyPair_pub test_prims 7 \<noteq> Inr 0"
    by (simp add: test_prims_def)
  have now0: "\<not> now ticking_host 1 < deadline_of ticking_host 0"
    by (simp add: ticking_host_def deadline_of_def)
  have inp: "seal_input test_prims signed_message 7
      = Inr ((0 OR ContainsSignature) # m_payload signed_message @ Signature_bytes 7)"
    by (rule seal_input_signed_eq [where pk = 7]) (simp_all add: test_prims_def)
  have "seal test_prims ticking_host signed_message 7 [7] 60 0
      = Some (Inr \<lparr>m_expiry = word_of_int (time0 ticking_host + uint (60 :: 32 word)),
                    m_ttl = 60, m_topic = [7],
                    m_data = 5 # (0 OR ContainsSignature) # m_payload signed_message @ Signature_bytes 7,
                    m_nonce = 0\<rparr>)"
    by (rule seal_immediate [OF now0 inp]) (simp add: signed_message_def test_prims_def)
  then have sealed: "seal test_prims ticking_host signed_message 7 [7] 60 0 = Some (Inr signed_envelope)"
    by (simp add: signed_envelope_def signed_message_def ticking_host_def ContainsSignature_def)
  have "m_payload (Envelope_open test_prims 0 signed_envelope 5) = m_payload signed_message"
    using to s5 law signer sealed by (rule seal_open_round_trip)
  then have "m_payload (Envelope_open test_prims 0 signed_envelope 5) = [104, 105]"
    by (simp add: signed_message_def)
  moreover have "KeyPair_pub test_prims 7 = Inr 7"
    by (simp add: test_prims_def)
  ultimately show ?thesis
    using to s5 sealed by simp
qed

text \<open>
  The stronger reading of C1, with the recipient key optional, fails: without a recipient
  \<^verbatim>\<open>seal\<close> stores the frame as it is, and \<^verbatim>\<open>open\<close> with the zero secret expects 32 bytes
  of key per topic in front of a ciphertext. The six bytes of the frame of "hello" are
  fewer than the 32 of one topic, and the message returned is empty.
\<close>

theorem seal_open_round_trip_counterexample:
  "seal test_prims ticking_host hello_message 0 [7] 60 0 = Some (Inr hello_envelope)
   \<and> m_payload (Envelope_open test_prims 0 hello_envelope 0) = []
   \<and> m_payload (Envelope_open test_prims 0 hello_envelope 0) \<noteq> m_payload hello_message"
proof -
  have now0: "\<not> now ticking_host 1 < deadline_of ticking_host 0"
    by (simp add: ticking_host_def deadline_of_def)
  have inp: "seal_input test_prims hello_message 0 = Inr (0 # m_payload hello_message)"
    by (rule seal_input_unsigned)
  have "seal test_prims ticking_host hello_message 0 [7] 60 0
      = Some (Inr \<lparr>m_expiry = word_of_int (time0 ticking_host + uint (60 :: 32 word)),
                    m_ttl = 60, m_topic = [7], m_data = 0 # m_payload hello_message, m_nonce = 0\<rparr>)"
    by (rule seal_immediate [OF now0 inp]) (simp add: hello_message_def)
  then have sealed: "seal test_prims ticking_host hello_message 0 [7] 60 0 = Some (Inr hello_envelope)"
    by (simp add: hello_envelope_def hello_message_def ticking_host_def)
  have "open_decrypt test_prims hello_envelope 0 0 = Inr None"
    by (simp add: open_decrypt_def hello_envelope_def)
  then have "Envelope_open test_prims 0 hello_envelope 0 = Message_default"
    by (simp add: Envelope_open_def Message_ctor_def)
  then have opened: "m_payload (Envelope_open test_prims 0 hello_envelope 0) = []"
    by (simp add: Message_default_def)
  from sealed opened show ?thesis
    by (simp add: hello_message_def)
qed

text \<open>
  C6. When \<^verbatim>\<open>open\<close> decrypts the frame that \<^verbatim>\<open>seal\<close> built, the sender of the message is
  absent if the frame was sealed without a sender secret, and otherwise it is the public
  key of the sender secret: the key \<^verbatim>\<open>populate\<close> recovers is the one the assertion in
  \<^verbatim>\<open>seal\<close> compared with \<^verbatim>\<open>KeyPair(_from).pub()\<close>.
\<close>

theorem sealed_sender_authentic:
  assumes "seal P H msg from topic ttl work = Some (Inr env)"
    and "seal_input P msg from = Inr input"
    and "open_decrypt P env s dflt = Inr (Some input)"
  shows "(from = 0 \<longrightarrow> m_from (Envelope_open P dflt env s) = 0)
       \<and> (from \<noteq> 0 \<longrightarrow> KeyPair_pub P from = Inr (m_from (Envelope_open P dflt env s)))"
  using open_sealed_frame [OF assms(2,3)]
  unfolding Envelope_open_def by blast

theorem sealed_sender_authentic_witness:
  "seal test_prims ticking_host signed_message 7 [7] 60 0 = Some (Inr signed_envelope)
   \<and> seal_input test_prims signed_message 7 = Inr (1 # [104, 105] @ Signature_bytes 7)
   \<and> open_decrypt test_prims signed_envelope 5 0 = Inr (Some (1 # [104, 105] @ Signature_bytes 7))
   \<and> (7 :: Secret) \<noteq> 0
   \<and> KeyPair_pub test_prims 7 = Inr 7
   \<and> m_from (Envelope_open test_prims 0 signed_envelope 5) = 7"
proof -
  have now0: "\<not> now ticking_host 1 < deadline_of ticking_host 0"
    by (simp add: ticking_host_def deadline_of_def)
  have "seal_input test_prims signed_message 7
      = Inr ((0 OR ContainsSignature) # m_payload signed_message @ Signature_bytes 7)"
    by (rule seal_input_signed_eq [where pk = 7]) (simp_all add: test_prims_def)
  then have inp: "seal_input test_prims signed_message 7 = Inr (1 # [104, 105] @ Signature_bytes 7)"
    by (simp add: signed_message_def ContainsSignature_def)
  have "seal test_prims ticking_host signed_message 7 [7] 60 0
      = Some (Inr \<lparr>m_expiry = word_of_int (time0 ticking_host + uint (60 :: 32 word)),
                    m_ttl = 60, m_topic = [7],
                    m_data = 5 # 1 # [104, 105] @ Signature_bytes 7, m_nonce = 0\<rparr>)"
    by (rule seal_immediate [OF now0 inp]) (simp add: signed_message_def test_prims_def)
  then have sealed: "seal test_prims ticking_host signed_message 7 [7] 60 0 = Some (Inr signed_envelope)"
    by (simp add: signed_envelope_def ticking_host_def)
  have dec: "open_decrypt test_prims signed_envelope 5 0 = Inr (Some (1 # [104, 105] @ Signature_bytes 7))"
    by (simp add: open_decrypt_def signed_envelope_def test_prims_def)
  have s7: "(7 :: Secret) \<noteq> 0"
    by simp
  have pub: "KeyPair_pub test_prims 7 = Inr 7"
    by (simp add: test_prims_def)
  have "KeyPair_pub test_prims 7 = Inr (m_from (Envelope_open test_prims 0 signed_envelope 5))"
    using sealed_sender_authentic [OF sealed inp dec] s7 by blast
  with pub have "m_from (Envelope_open test_prims 0 signed_envelope 5) = 7"
    by simp
  with sealed inp dec s7 pub show ?thesis
    by (intro conjI)
qed

end
